theory Spec2Isabelle
  imports Main "HOL-Library.Word" "HOL-Library.Multiset"
begin

unbundle bit_operations_syntax

section \<open>Strings and paths\<close>

text \<open>
  Go strings are byte sequences: \<open>len\<close> counts bytes and \<open>s[i:j]\<close> slices bytes, so a
  Go string is a \<^typ>\<open>string\<close> (a list of 8-bit characters) here.
\<close>

text \<open>\<open>s[lo:hi]\<close> for \<open>lo \<le> hi \<le> len(s)\<close>; every slice taken below is in range.\<close>

definition slice :: "string \<Rightarrow> nat \<Rightarrow> nat \<Rightarrow> string" where
  "slice s lo hi = take (hi - lo) (drop lo s)"

text \<open>\<open>strings.HasPrefix\<close>.\<close>

definition HasPrefix :: "string \<Rightarrow> string \<Rightarrow> bool" where
  "HasPrefix s p = (take (length p) s = p)"

text \<open>
  \<open>strings.Split(s, sep)\<close> for a one-byte separator; \<open>Split("", "/")\<close> is \<open>[""]\<close>.
  The result is never empty, so the first case below is never taken.
\<close>

fun Split :: "string \<Rightarrow> char \<Rightarrow> string list" where
  "Split [] sep = [[]]"
| "Split (c # t) sep =
     (if c = sep then [] # Split t sep
      else (case Split t sep of [] \<Rightarrow> [[c]] | part # parts \<Rightarrow> (c # part) # parts))"

text \<open>\<open>strings.Join(elems, "/")\<close>.\<close>

fun join_sep :: "string list \<Rightarrow> string" where
  "join_sep [] = []"
| "join_sep [x] = x"
| "join_sep (x # y # ys) = x @ ''/'' @ join_sep (y # ys)"

text \<open>
  \<open>filepath.Clean\<close> where the separator is \<open>/\<close> (\<open>path/filepath\<close> is library code; on
  Windows the separator is the backslash and a path may start with a volume name). Its
  documented rules, applied to the elements between separators from left to right:
  an empty element (doubled, leading or trailing separator) and a \<open>.\<close> element are
  dropped; a \<open>..\<close> element removes the element before it, is dropped at the root of a
  rooted path, and is kept at the start of a path that is not rooted. \<open>clean_elem\<close> takes
  the elements kept so far, last one first. A rooted path keeps its leading separator,
  and an empty result is \<open>.\<close>.
\<close>

definition clean_elem :: "bool \<Rightarrow> string list \<Rightarrow> string \<Rightarrow> string list" where
  "clean_elem rooted kept e =
     (if e = [] \<or> e = ''.'' then kept
      else if e = ''..'' then
        (case kept of
           [] \<Rightarrow> if rooted then [] else [''..'']
         | k # ks \<Rightarrow> if k = ''..'' then ''..'' # k # ks else ks)
      else e # kept)"

definition filepath_Clean :: "string \<Rightarrow> string" where
  "filepath_Clean path =
     (let rooted = HasPrefix path ''/'';
          kept = foldl (clean_elem rooted) [] (Split path (CHR ''/''));
          body = join_sep (rev kept)
      in if rooted then ''/'' @ body else if body = [] then ''.'' else body)"

text \<open>
  \<open>filepath.Join\<close>: the elements from the first non-empty one on are joined with the
  separator and the result is cleaned; without a non-empty element the result is the
  empty string.
\<close>

definition filepath_Join :: "string list \<Rightarrow> string" where
  "filepath_Join elems =
     (let rest = dropWhile (\<lambda>e. e = []) elems
      in if rest = [] then [] else filepath_Clean (join_sep rest))"

section \<open>Shard-path resolver\<close>

text \<open>\<open>crateDirFor\<close> of the downloader package.\<close>

definition crateDirFor :: "string \<Rightarrow> string \<Rightarrow> string" where
  "crateDirFor crateName outDir =
     (if crateName = [] then outDir
      else let name = crateName in
        if length name \<le> 3 then filepath_Join [outDir, name]
        else
          let firstDir =
                (if HasPrefix name ''1'' \<or> HasPrefix name ''2'' \<or> HasPrefix name ''3''
                 then slice name 0 1
                 else if length name \<ge> 2 \<and> length name > 1 \<and> name ! 1 = CHR ''-''
                      then slice name 0 2
                      else slice name 0 1);
              secondStart = length firstDir;
              secondEnd = (if secondStart + 2 > length name then length name
                           else secondStart + 2);
              secondDir = slice name secondStart secondEnd
          in filepath_Join [outDir, firstDir, secondDir])"

text \<open>\<open>CrateDirFor\<close> of the sidecar package, a textual copy of the above.\<close>

definition CrateDirFor :: "string \<Rightarrow> string \<Rightarrow> string" where
  "CrateDirFor crateName outDir =
     (if crateName = [] then outDir
      else let name = crateName in
        if length name \<le> 3 then filepath_Join [outDir, name]
        else
          let firstDir =
                (if HasPrefix name ''1'' \<or> HasPrefix name ''2'' \<or> HasPrefix name ''3''
                 then slice name 0 1
                 else if length name \<ge> 2 \<and> length name > 1 \<and> name ! 1 = CHR ''-''
                      then slice name 0 2
                      else slice name 0 1);
              secondStart = length firstDir;
              secondEnd = (if secondStart + 2 > length name then length name
                           else secondStart + 2);
              secondDir = slice name secondStart secondEnd
          in filepath_Join [outDir, firstDir, secondDir])"

text \<open>
  The rule as the specification words it, for comparison with the two functions above:
  the first shard, the second shard, and the resulting directory.
\<close>

definition spec_first_shard :: "string \<Rightarrow> string" where
  "spec_first_shard name =
     (if hd name \<in> {CHR ''1'', CHR ''2'', CHR ''3''} then [hd name]
      else if hd (tl name) = CHR ''-'' then take 2 name
      else [hd name])"

definition spec_second_shard :: "string \<Rightarrow> string" where
  "spec_second_shard name = take 2 (drop (length (spec_first_shard name)) name)"

definition spec_shards :: "string \<Rightarrow> string list" where
  "spec_shards name =
     (if length name \<le> 3 then [name] else [spec_first_shard name, spec_second_shard name])"

text \<open>The path as the specification writes it: \<open><outDir>/<name>\<close>, \<open><outDir>/x-/ra\<close>.\<close>

definition spec_shard_dir :: "string \<Rightarrow> string \<Rightarrow> string" where
  "spec_shard_dir name outDir = outDir @ concat (map (\<lambda>shard. ''/'' @ shard) (spec_shards name))"

text \<open>
  A path element that \<open>filepath.Clean\<close> keeps as it is: not empty, without a separator,
  and neither \<open>.\<close> nor \<open>..\<close>. A directory to which elements can be appended literally: a
  path that is already clean, other than \<open>.\<close> and the root.
\<close>

definition plain_elem :: "string \<Rightarrow> bool" where
  "plain_elem e = (e \<noteq> [] \<and> CHR ''/'' \<notin> set e \<and> e \<noteq> ''.'' \<and> e \<noteq> ''..'')"

definition clean_dir :: "string \<Rightarrow> bool" where
  "clean_dir p = (filepath_Clean p = p \<and> p \<noteq> ''.'' \<and> p \<noteq> ''/'')"

section \<open>String helpers of the downloader\<close>

text \<open>
  \<open>strings.Index\<close> and \<open>strings.LastIndex\<close>: the byte offset of the first (last)
  occurrence of \<open>sub\<close>, \<open>None\<close> where Go returns \<open>-1\<close>.
\<close>

fun Index :: "string \<Rightarrow> string \<Rightarrow> nat option" where
  "Index [] sub = (if sub = [] then Some 0 else None)"
| "Index (c # t) sub =
     (if HasPrefix (c # t) sub then Some 0 else map_option Suc (Index t sub))"

fun LastIndex :: "string \<Rightarrow> string \<Rightarrow> nat option" where
  "LastIndex [] sub = (if sub = [] then Some 0 else None)"
| "LastIndex (c # t) sub =
     (case LastIndex t sub of
        Some i \<Rightarrow> Some (Suc i)
      | None \<Rightarrow> if HasPrefix (c # t) sub then Some 0 else None)"

text \<open>
  \<open>strings.TrimSpace\<close> on the ASCII white space (tab, line feed, vertical tab, form
  feed, carriage return, space); Go also trims the Unicode spaces outside ASCII.
\<close>

definition isSpace :: "char \<Rightarrow> bool" where
  "isSpace c = (c \<in> {CHR 0x09, CHR 0x0A, CHR 0x0B, CHR 0x0C, CHR 0x0D, CHR '' ''})"

definition TrimSpace :: "string \<Rightarrow> string" where
  "TrimSpace s = rev (dropWhile isSpace (rev (dropWhile isSpace s)))"

text \<open>\<open>strings.ReplaceAll\<close> for a non-empty \<open>old\<close>: leftmost, non-overlapping.\<close>

function ReplaceAll :: "string \<Rightarrow> string \<Rightarrow> string \<Rightarrow> string" where
  "ReplaceAll [] old new = []"
| "ReplaceAll (c # t) old new =
     (if old \<noteq> [] \<and> HasPrefix (c # t) old
      then new @ ReplaceAll (drop (length old) (c # t)) old new
      else c # ReplaceAll t old new)"
  by pat_completeness auto
termination
  by (relation "measure (\<lambda>(s, old, new). length s)") auto

text \<open>
  \<open>strings.ToLower\<close> and \<open>strings.EqualFold\<close> on ASCII: the letters \<open>A\<close> to \<open>Z\<close> map to
  \<open>a\<close> to \<open>z\<close>, every other byte is kept. Hex digests are ASCII; Go's functions also fold
  letters outside ASCII.
\<close>

definition lower_byte :: "char \<Rightarrow> char" where
  "lower_byte c =
     (case map_of (zip ''ABCDEFGHIJKLMNOPQRSTUVWXYZ'' ''abcdefghijklmnopqrstuvwxyz'') c of
        Some l \<Rightarrow> l
      | None \<Rightarrow> c)"

definition ToLower :: "string \<Rightarrow> string" where
  "ToLower s = map lower_byte s"

definition EqualFold :: "string \<Rightarrow> string \<Rightarrow> bool" where
  "EqualFold s t = (map lower_byte s = map lower_byte t)"

text \<open>
  Decimal formatting: \<open>%d\<close> and \<open>%04d\<close> of \<open>fmt.Sprintf\<close>. \<open>%04d\<close> pads with zeros to
  four characters, the sign included, and never truncates.
\<close>

definition digit_char :: "nat \<Rightarrow> char" where
  "digit_char k = ''0123456789'' ! k"

function dec_digits :: "nat \<Rightarrow> string" where
  "dec_digits k =
     (if k < 10 then [digit_char k] else dec_digits (k div 10) @ [digit_char (k mod 10)])"
  by pat_completeness auto
termination
  by (relation "measure id") auto

definition pad0 :: "nat \<Rightarrow> string \<Rightarrow> string" where
  "pad0 width s = replicate (width - length s) (CHR ''0'') @ s"

definition fmt_d :: "int \<Rightarrow> string" where
  "fmt_d i = (if i < 0 then ''-'' @ dec_digits (nat (- i)) else dec_digits (nat i))"

definition fmt_04d :: "int \<Rightarrow> string" where
  "fmt_04d i =
     (if i < 0 then ''-'' @ pad0 3 (dec_digits (nat (- i))) else pad0 4 (dec_digits (nat i)))"

text \<open>
  \<open>sanitizeName\<close>. The parameter \<open>H\<close> stands for the hex-encoded SHA-256 digest of a byte
  string (\<open>crypto/sha256\<close> and \<open>encoding/hex\<close> are library code), here and below;
  \<open>hex.EncodeToString(sha256.New().Sum(nil))\<close> is the digest of the empty input.
\<close>

definition sanitizeName :: "(string \<Rightarrow> string) \<Rightarrow> string \<Rightarrow> string" where
  "sanitizeName H u =
     (let seg = (case LastIndex u ''/'' of Some i \<Rightarrow> drop (i + 1) u | None \<Rightarrow> u);
          seg = TrimSpace seg
      in if seg = [] \<or> seg = ''/'' then H []
         else ReplaceAll (ReplaceAll (ReplaceAll seg ''..'' ''_'') ''?'' ''_'') ''&'' ''_'')"

definition crateNameFromURL :: "string \<Rightarrow> string" where
  "crateNameFromURL u =
     (let rest = u;
          rest = (case Index rest ''://'' of Some i \<Rightarrow> drop (i + 3) rest | None \<Rightarrow> rest);
          rest = (case Index rest ''/'' of Some j \<Rightarrow> drop (j + 1) rest | None \<Rightarrow> rest);
          parts = Split rest (CHR ''/'')
      in if length parts \<ge> 2 then parts ! (length parts - 2) else [])"

definition headerPathFor :: "string \<Rightarrow> string \<Rightarrow> string" where
  "headerPathFor url base =
     (let host =
            (if HasPrefix url ''http''
             then let rest = url;
                      rest = (case Index rest ''://'' of
                                Some i \<Rightarrow> drop (i + 3) rest | None \<Rightarrow> rest)
                  in (case Index rest ''/'' of Some j \<Rightarrow> take j rest | None \<Rightarrow> rest)
             else [])
      in if host = [] then base else filepath_Join [host, base])"

section \<open>Errors\<close>

text \<open>
  A Go \<open>error\<close> value: its text (\<open>err.Error()\<close>) and whether it wraps
  \<open>context.Canceled\<close> or \<open>context.DeadlineExceeded\<close>, which is all that \<open>errors.Is\<close>
  asks of it in this program.
\<close>

datatype err_kind = Plain | WrapsCanceled | WrapsDeadline

datatype go_error = GoError err_kind string

fun err_text :: "go_error \<Rightarrow> string" where
  "err_text (GoError k msg) = msg"

fun is_context_err :: "go_error \<Rightarrow> bool" where
  "is_context_err (GoError k msg) = (k = WrapsCanceled \<or> k = WrapsDeadline)"

section \<open>Rolling bundler\<close>

text \<open>
  A writer or file pointer of the \<open>Bundler\<close>: nil, open, or closed. The tar, zstd and
  file layers are library code; the model keeps their open/closed state and logs the
  calls made on them.
\<close>

datatype handle = HNil | HOpen | HClosed

datatype bevent =
    TarClose | ZstdClose | FileClose
  | FileCreate string
  | TarHeader string int

text \<open>
  The struct \<open>Bundler\<close> (the mutex is left out: every operation below is one critical
  section; the field \<open>outDir\<close> is \<open>bOutDir\<close> here, as the \<open>Downloader\<close> has one of that
  name too). \<open>created\<close> and \<open>events\<close> are not fields of the Go struct: they record the
  paths given to a successful \<open>os.Create\<close> and the calls made on the writers, in order.
  Byte counts are \<open>int64\<close> in Go; file sizes stay far below \<open>2^63\<close> and the sums are
  taken in \<^typ>\<open>int\<close>.
\<close>

record Bundler =
  enabled :: bool
  bOutDir :: string
  targetBytes :: int
  currentIdx :: int
  currentBytes :: int
  tw :: handle
  zw :: handle
  outFile :: handle
  created :: "string list"
  events :: "bevent list"

text \<open>What the environment answers during one \<open>AddFile\<close> (or \<open>NewBundler\<close>) call.\<close>

record bundle_io =
  stat_err :: "go_error option"
  bundle_create_err :: "go_error option"
  zstd_err :: "go_error option"
  open_err :: "go_error option"
  header_err :: "go_error option"
  copy_err :: "go_error option"

definition bundle_name :: "int \<Rightarrow> string" where
  "bundle_name idx = ''bundle-'' @ fmt_04d idx @ ''.tar.zst''"

definition rotateLocked :: "bundle_io \<Rightarrow> Bundler \<Rightarrow> Bundler \<times> go_error option" where
  "rotateLocked io b =
     (if \<not> enabled b then (b, None)
      else
        let b = (if tw b \<noteq> HNil
                 then b\<lparr>tw := HClosed, events := events b @ [TarClose]\<rparr> else b);
            b = (if zw b \<noteq> HNil
                 then b\<lparr>zw := HClosed, events := events b @ [ZstdClose]\<rparr> else b);
            b = (if outFile b \<noteq> HNil
                 then b\<lparr>outFile := HClosed, events := events b @ [FileClose]\<rparr> else b);
            name = bundle_name (currentIdx b);
            path = filepath_Join [bOutDir b, name]
        in case bundle_create_err io of
             Some err \<Rightarrow> (b, Some err)
           | None \<Rightarrow>
               let b = b\<lparr>created := created b @ [path],
                         events := events b @ [FileCreate path]\<rparr>
               in (case zstd_err io of
                     Some err \<Rightarrow> (b\<lparr>events := events b @ [FileClose]\<rparr>, Some err)
                   | None \<Rightarrow>
                       (b\<lparr>outFile := HOpen, zw := HOpen, tw := HOpen,
                          currentBytes := 0, currentIdx := currentIdx b + 1\<rparr>, None)))"

text \<open>\<open>int64\<close> multiplication, as in \<open>targetGB * (1 << 30)\<close>.\<close>

definition mul_int64 :: "int \<Rightarrow> int \<Rightarrow> int" where
  "mul_int64 x y = sint ((word_of_int x :: 64 word) * word_of_int y)"

definition emptyBundler :: Bundler where
  "emptyBundler =
     \<lparr>enabled = False, bOutDir = [], targetBytes = 0, currentIdx = 0, currentBytes = 0,
      tw = HNil, zw = HNil, outFile = HNil, created = [], events = []\<rparr>"

definition NewBundler ::
  "go_error option \<Rightarrow> bundle_io \<Rightarrow> bool \<Rightarrow> string \<Rightarrow> int \<Rightarrow> go_error + Bundler" where
  "NewBundler mkdir_err io enabled_flag bundlesOut targetGB =
     (if \<not> enabled_flag then Inr emptyBundler
      else case mkdir_err of
             Some err \<Rightarrow> Inl err
           | None \<Rightarrow>
               let b = emptyBundler\<lparr>enabled := True, bOutDir := bundlesOut,
                                     targetBytes := mul_int64 targetGB (2 ^ 30)\<rparr>
               in (case rotateLocked io b of
                     (b', Some err) \<Rightarrow> Inl err
                   | (b', None) \<Rightarrow> Inr b'))"

text \<open>
  The part of \<open>AddFile\<close> after the rotation check: open the file, write the tar header,
  copy the content, advance the byte count. \<open>WriteHeader\<close> on a writer that is not open
  fails (tar's write-after-close).
\<close>

definition write_entry ::
  "bundle_io \<Rightarrow> string \<Rightarrow> int \<Rightarrow> Bundler \<Rightarrow> Bundler \<times> go_error option" where
  "write_entry io headerName sz b =
     (case open_err io of
        Some err \<Rightarrow> (b, Some err)
      | None \<Rightarrow>
          if tw b \<noteq> HOpen then (b, Some (GoError Plain ''archive/tar: write after close''))
          else (case header_err io of
                  Some err \<Rightarrow> (b, Some err)
                | None \<Rightarrow>
                    let b = b\<lparr>events := events b @ [TarHeader headerName sz]\<rparr>
                    in (case copy_err io of
                          Some err \<Rightarrow> (b, Some err)
                        | None \<Rightarrow> (b\<lparr>currentBytes := currentBytes b + sz\<rparr>, None))))"

text \<open>
  \<open>AddFile\<close>. \<open>files\<close> is the file system (path to content): \<open>os.Stat\<close> fails on a
  missing file, or when the environment says so, and reports the content's length.
\<close>

definition AddFile ::
  "bundle_io \<Rightarrow> (string \<rightharpoonup> string) \<Rightarrow> string \<Rightarrow> string \<Rightarrow> Bundler
     \<Rightarrow> Bundler \<times> go_error option" where
  "AddFile io files filePath headerName b =
     (if \<not> enabled b then (b, None)
      else case (stat_err io, files filePath) of
             (Some err, _) \<Rightarrow> (b, Some err)
           | (None, None) \<Rightarrow> (b, Some (GoError Plain ''stat: no such file or directory''))
           | (None, Some content) \<Rightarrow>
               let sz = int (length content) in
               if currentBytes b + sz > targetBytes b
               then (case rotateLocked io b of
                       (b', Some err) \<Rightarrow> (b', Some err)
                     | (b', None) \<Rightarrow> write_entry io headerName sz b')
               else write_entry io headerName sz b)"

text \<open>\<open>Close\<close>, given the errors the three \<open>Close\<close> calls return.\<close>

definition Close ::
  "go_error option \<Rightarrow> go_error option \<Rightarrow> go_error option \<Rightarrow> Bundler
     \<Rightarrow> Bundler \<times> go_error option" where
  "Close tar_err zst_err file_err b =
     (if \<not> enabled b then (b, None)
      else
        let b = (if tw b \<noteq> HNil
                 then b\<lparr>tw := HClosed, events := events b @ [TarClose]\<rparr> else b)
        in if tw b \<noteq> HNil \<and> tar_err \<noteq> None then (b, tar_err)
           else
             let b = (if zw b \<noteq> HNil
                      then b\<lparr>zw := HClosed, events := events b @ [ZstdClose]\<rparr> else b)
             in if zw b \<noteq> HNil \<and> zst_err \<noteq> None then (b, zst_err)
                else if outFile b \<noteq> HNil
                     then (b\<lparr>outFile := HClosed, events := events b @ [FileClose]\<rparr>, file_err)
                     else (b, None))"

text \<open>
  A bundler's life after \<open>NewBundler\<close>: a sequence of \<open>AddFile\<close> calls, each with the
  file system it sees and what the environment answers. A failed call is logged by the
  caller and the run goes on, so the error is dropped.
\<close>

type_synonym add_call = "bundle_io \<times> (string \<rightharpoonup> string) \<times> string \<times> string"

fun add_files :: "add_call list \<Rightarrow> Bundler \<Rightarrow> Bundler" where
  "add_files [] b = b"
| "add_files ((io, files, filePath, headerName) # calls) b =
     add_files calls (fst (AddFile io files filePath headerName b))"

section \<open>Downloader\<close>

text \<open>The manifest \<open>Record\<close>.\<close>

record Record =
  SchemaVersion :: int
  URL :: string
  Path :: string
  Size :: int
  SHA256 :: string
  StartedAt :: string
  FinishedAt :: string
  OK :: bool
  Error :: string
  Retries :: int
  Status :: string

text \<open>
  The configuration held by a \<open>Downloader\<close>. \<open>retryBase\<close> and \<open>retryMax\<close> are
  \<open>time.Duration\<close>, an \<open>int64\<close> count of nanoseconds.
\<close>

record Downloader =
  outDir :: string
  checksums :: "string \<rightharpoonup> string"
  concurrency :: int
  retries :: int
  retryBase :: "64 word"
  retryMax :: "64 word"

text \<open>
  What a \<open>Downloader\<close> changes: the file system (path to content; directories are not
  tracked), its counters, its \<open>Bundler\<close> (\<open>None\<close> for a nil pointer), and two logs that
  are not in the Go struct: the URL of every HTTP request issued and the argument of every
  \<open>time.Sleep\<close>, in order. The Prometheus metrics and the log lines only observe and are
  left out. \<open>panicked\<close> says that a goroutine has panicked: nothing in the program
  recovers, so the process is dead from then on.
\<close>

record world =
  files :: "string \<rightharpoonup> string"
  requests :: "string list"
  sleeps :: "int list"
  okCount :: int
  errCount :: int
  bundler :: "Bundler option"
  filesSent :: "string list"
  panicked :: bool

definition incOK :: "world \<Rightarrow> world" where
  "incOK w = w\<lparr>okCount := okCount w + 1\<rparr>"

definition incErr :: "world \<Rightarrow> world" where
  "incErr w = w\<lparr>errCount := errCount w + 1\<rparr>"

text \<open>
  The outcome of building and issuing the request. \<open>http.NewRequestWithContext\<close> fails
  when the URL does not parse (a bad percent-escape, a control character, ...): it
  returns a nil request with an error. Otherwise \<open>client.Do\<close> answers: a transport error,
  or a response with its status code, the bytes \<open>io.Copy\<close> wrote to the temporary file,
  and \<open>io.Copy\<close>'s error. (The body is only read when the status is 200.)
\<close>

datatype http_result =
    NoRequest go_error
  | DoError go_error
  | Response int string "go_error option"

text \<open>What the environment answers during one attempt of the retry loop.\<close>

record attempt_io =
  tmp_create_err :: "go_error option"
  do_result :: http_result
  rename_err :: "go_error option"
  unix_nano :: "64 word"

text \<open>What the environment answers during one call of \<open>fetchOne\<close>.\<close>

record fetch_io =
  started_at :: string
  finished_at :: string
  mkdir_err :: "go_error option"
  attempt_ios :: "int \<Rightarrow> attempt_io"
  add_io :: bundle_io

text \<open>
  \<open>NewDownloader\<close> with its defaults (6 attempts, 500 ms base, 30 s cap), and the
  setters. The HTTP client, the timeout and the manifest writer belong to the
  environment and to \<open>Run\<close>.
\<close>

definition NewDownloader :: "string \<Rightarrow> int \<Rightarrow> (string \<rightharpoonup> string) \<Rightarrow> Downloader" where
  "NewDownloader out conc sums =
     \<lparr>outDir = out, checksums = sums, concurrency = conc, retries = 6,
      retryBase = 500 * 1000000, retryMax = 30 * 1000000000\<rparr>"

definition SetRetries :: "int \<Rightarrow> Downloader \<Rightarrow> Downloader" where
  "SetRetries k d = d\<lparr>retries := k\<rparr>"

definition SetRetryBase :: "64 word \<Rightarrow> Downloader \<Rightarrow> Downloader" where
  "SetRetryBase dur d = (if sint dur > 0 then d\<lparr>retryBase := dur\<rparr> else d)"

definition SetRetryMax :: "64 word \<Rightarrow> Downloader \<Rightarrow> Downloader" where
  "SetRetryMax dur d = (if sint dur > 0 then d\<lparr>retryMax := dur\<rparr> else d)"

definition verifyFile ::
  "(string \<Rightarrow> string) \<Rightarrow> Downloader \<Rightarrow> world \<Rightarrow> string \<Rightarrow> string \<Rightarrow> bool \<times> string" where
  "verifyFile H d w path url =
     (case files w path of
        None \<Rightarrow> (False, [])
      | Some content \<Rightarrow>
          let got = H content in
          (case checksums d url of
             Some want \<Rightarrow> if want \<noteq> [] then (EqualFold want got, got) else (True, got)
           | None \<Rightarrow> (True, got)))"

text \<open>
  The backoff of attempt \<open>attempt\<close>: \<open>retryBase << (attempt - 1)\<close> on \<open>int64\<close> (bits
  shifted out are lost), replaced by \<open>retryMax\<close> when greater as a signed number.
\<close>

definition backoff :: "Downloader \<Rightarrow> int \<Rightarrow> 64 word" where
  "backoff d attempt =
     (let back = push_bit (nat (attempt - 1)) (retryBase d)
      in if sint back > sint (retryMax d) then retryMax d else back)"

text \<open>
  The jitter is \<open>0.5 + float64(now & 0x3ff) / 1024.0\<close>, that is \<open>jitter_num / 1024\<close>, and
  the sleep is \<open>time.Duration(float64(back) * jitter)\<close>: the product, truncated towards
  zero. Both factors and the product are exact in \<open>float64\<close> whenever
  \<open>back * jitter_num\<close> has at most 53 significant bits, which covers every \<open>back\<close> up to
  an hour and a half; the model is the exact product.
\<close>

definition jitter_num :: "64 word \<Rightarrow> int" where
  "jitter_num now = 512 + uint (now AND 0x3ff)"

definition trunc_div :: "int \<Rightarrow> int \<Rightarrow> int" where
  "trunc_div a b = (if (a < 0) = (b < 0) then \<bar>a\<bar> div \<bar>b\<bar> else - (\<bar>a\<bar> div \<bar>b\<bar>))"

definition sleep_for :: "Downloader \<Rightarrow> 64 word \<Rightarrow> int \<Rightarrow> int" where
  "sleep_for d now attempt = trunc_div (sint (backoff d attempt) * jitter_num now) 1024"

text \<open>
  The local variables of \<open>fetchOne\<close> that live across attempts, with the world, and
  whether the loop was left by a panic. An iteration ends in \<open>break\<close>, runs to its end,
  or panics.
\<close>

record loop_state =
  ls_world :: world
  ls_n :: int
  ls_lastErr :: "go_error option"
  ls_attemptCnt :: int
  ls_panicked :: bool

datatype flow = Break | Continue | Panic

definition remove_file :: "string \<Rightarrow> loop_state \<Rightarrow> loop_state" where
  "remove_file path st = st\<lparr>ls_world := (ls_world st)\<lparr>files := (files (ls_world st))(path := None)\<rparr>\<rparr>"

definition write_file :: "string \<Rightarrow> string \<Rightarrow> loop_state \<Rightarrow> loop_state" where
  "write_file path content st =
     st\<lparr>ls_world := (ls_world st)\<lparr>files := (files (ls_world st))(path \<mapsto> content)\<rparr>\<rparr>"

text \<open>The request that \<open>client.Do\<close> sends, entered in the log of requests.\<close>

definition log_request :: "string \<Rightarrow> loop_state \<Rightarrow> loop_state" where
  "log_request url st =
     st\<lparr>ls_world := (ls_world st)\<lparr>requests := requests (ls_world st) @ [url]\<rparr>\<rparr>"

text \<open>
  The end of the loop body, reached by every path that did not \<open>break\<close>: stop when
  \<open>lastErr\<close> is nil or a context error, otherwise sleep unless this was the last attempt.
\<close>

definition after_attempt ::
  "Downloader \<Rightarrow> attempt_io \<Rightarrow> int \<Rightarrow> int \<Rightarrow> loop_state \<Rightarrow> flow \<times> loop_state" where
  "after_attempt d io attempts attempt st =
     (case ls_lastErr st of
        None \<Rightarrow> (Break, st)
      | Some e \<Rightarrow>
          if is_context_err e then (Break, st)
          else if attempt < attempts
               then (Continue,
                     st\<lparr>ls_world := (ls_world st)
                          \<lparr>sleeps := sleeps (ls_world st) @ [sleep_for d (unix_nano io) attempt]\<rparr>\<rparr>)
               else (Continue, st))"

text \<open>
  One iteration of the retry loop. The error of \<open>http.NewRequestWithContext\<close> is
  discarded (\<open>req, _ :=\<close>) and the next statement, \<open>req.Header.Set\<close>, dereferences the
  request: when it is nil the goroutine panics there, after the temporary file was
  created and before any request is sent. When \<open>os.Rename\<close> fails, the statement
  \<open>lastErr = err\<close> that follows reads the outer \<open>err\<close> (the \<open>err\<close> of \<open>os.Rename\<close> is
  scoped to its \<open>if\<close>), which is \<open>io.Copy\<close>'s and nil there.
\<close>

definition attempt_body ::
  "Downloader \<Rightarrow> attempt_io \<Rightarrow> string \<Rightarrow> string \<Rightarrow> string \<Rightarrow> int \<Rightarrow> int \<Rightarrow> loop_state
     \<Rightarrow> flow \<times> loop_state" where
  "attempt_body d io url tmpPath outPath attempts attempt st0 =
     (let st = st0\<lparr>ls_attemptCnt := attempt\<rparr>;
          st = remove_file tmpPath st
      in case tmp_create_err io of
           Some err \<Rightarrow> (Break, st\<lparr>ls_lastErr := Some err\<rparr>)
         | None \<Rightarrow>
             let st = write_file tmpPath [] st
             in (case do_result io of
                   NoRequest err \<Rightarrow> (Panic, st)
                 | DoError err \<Rightarrow>
                     let st = log_request url st in
                     after_attempt d io attempts attempt
                       ((remove_file tmpPath st)\<lparr>ls_lastErr := Some err\<rparr>)
                 | Response code body cerr \<Rightarrow>
                     let st = log_request url st in
                     if code = 200 then
                       let st = (write_file tmpPath body st)\<lparr>ls_n := int (length body)\<rparr> in
                       (case cerr of
                          None \<Rightarrow>
                            (case rename_err io of
                               None \<Rightarrow>
                                 (Break,
                                  (remove_file tmpPath (write_file outPath body st))
                                    \<lparr>ls_lastErr := None\<rparr>)
                             | Some rerr \<Rightarrow>
                                 after_attempt d io attempts attempt (st\<lparr>ls_lastErr := None\<rparr>))
                        | Some err \<Rightarrow>
                            after_attempt d io attempts attempt (st\<lparr>ls_lastErr := Some err\<rparr>))
                     else
                       let retryable = (code = 408 \<or> code = 425 \<or> code = 429 \<or> code \<ge> 500);
                           st = st\<lparr>ls_lastErr := Some (GoError Plain (''HTTP '' @ fmt_d code))\<rparr>;
                           st = remove_file tmpPath st
                       in if \<not> retryable then (Break, st)
                          else after_attempt d io attempts attempt st))"

text \<open>
  \<open>for attempt := 1; attempt <= attempts; attempt++\<close>. The counter is a Go \<open>int\<close>; it
  stays below \<open>attempts + 1\<close> and is an \<^typ>\<open>int\<close> here. A panic ends the loop and
  is recorded in the state.
\<close>

function attempt_loop ::
  "Downloader \<Rightarrow> (int \<Rightarrow> attempt_io) \<Rightarrow> string \<Rightarrow> string \<Rightarrow> string \<Rightarrow> int \<Rightarrow> int \<Rightarrow> loop_state
     \<Rightarrow> loop_state" where
  "attempt_loop d ios url tmpPath outPath attempts attempt st =
     (if attempt \<le> attempts
      then (case attempt_body d (ios attempt) url tmpPath outPath attempts attempt st of
              (Break, st') \<Rightarrow> st'
            | (Continue, st') \<Rightarrow>
                attempt_loop d ios url tmpPath outPath attempts (attempt + 1) st'
            | (Panic, st') \<Rightarrow> st'\<lparr>ls_panicked := True\<rparr>)
      else st)"
  by pat_completeness auto
termination
  by (relation "measure (\<lambda>(d, ios, url, tmpPath, outPath, attempts, attempt, st).
                           nat (attempts + 1 - attempt))") auto

text \<open>
  The path \<open>fetchOne\<close> resolves for a URL (\<open>outPath\<close>), and the condition of its resume
  check: the file is there (\<open>os.Stat\<close> succeeds) and \<open>verifyFile\<close> accepts it.
\<close>

definition target_path :: "(string \<Rightarrow> string) \<Rightarrow> Downloader \<Rightarrow> string \<Rightarrow> string" where
  "target_path H d url =
     filepath_Join [crateDirFor (crateNameFromURL url) (outDir d), sanitizeName H url]"

definition resumes :: "(string \<Rightarrow> string) \<Rightarrow> Downloader \<Rightarrow> world \<Rightarrow> string \<Rightarrow> bool" where
  "resumes H d w url =
     (files w (target_path H d url) \<noteq> None
      \<and> fst (verifyFile H d w (target_path H d url) url))"

text \<open>
  The part of \<open>fetchOne\<close> after the retry loop, from \<open>rec.Retries = ...\<close> on.
  \<open>filesCh\<close> says whether the channel argument is non-nil (\<open>Run\<close> passes nil).
\<close>

definition finish_fetch ::
  "(string \<Rightarrow> string) \<Rightarrow> Downloader \<Rightarrow> fetch_io \<Rightarrow> string \<Rightarrow> bool \<Rightarrow> Record \<Rightarrow> string
     \<Rightarrow> string \<Rightarrow> loop_state \<Rightarrow> Record \<times> world" where
  "finish_fetch H d io url filesCh rec0 name outPath st =
     (let w = ls_world st;
          rec = rec0\<lparr>Retries := max 0 (ls_attemptCnt st - 1)\<rparr>
      in case ls_lastErr st of
           Some err \<Rightarrow> (rec\<lparr>Error := err_text err, Status := ''error''\<rparr>, incErr w)
         | None \<Rightarrow>
             let (ok, sum) = verifyFile H d w outPath url;
                 rec = rec\<lparr>Path := outPath, Size := ls_n st, SHA256 := sum,
                           FinishedAt := finished_at io, OK := ok\<rparr>
             in if \<not> ok
                then (rec\<lparr>Error := ''checksum mismatch'', Status := ''error''\<rparr>, incErr w)
                else
                  let w = incOK w;
                      rec = rec\<lparr>Status := ''ok''\<rparr>;
                      w = (case bundler w of
                             Some b \<Rightarrow>
                               if enabled b
                               then w\<lparr>bundler :=
                                        Some (fst (AddFile (add_io io) (files w) outPath
                                                     (headerPathFor url name) b))\<rparr>
                               else w
                           | None \<Rightarrow> w);
                      w = (if filesCh then w\<lparr>filesSent := filesSent w @ [outPath]\<rparr> else w)
                  in (rec, w))"

text \<open>
  \<open>fetchOne\<close>. When the retry loop panics, \<open>fetchOne\<close> does not return: the world it
  leaves is marked as panicked, and the Record paired with it is not a return value
  (nobody receives it).
\<close>

definition fetchOne ::
  "(string \<Rightarrow> string) \<Rightarrow> Downloader \<Rightarrow> fetch_io \<Rightarrow> string \<Rightarrow> bool \<Rightarrow> world \<Rightarrow> Record \<times> world" where
  "fetchOne H d io url filesCh w =
     (let rec = \<lparr>SchemaVersion = 1, URL = url, Path = [], Size = 0, SHA256 = [],
                 StartedAt = started_at io, FinishedAt = [], OK = False, Error = [],
                 Retries = 0, Status = []\<rparr>;
          name = sanitizeName H url;
          crate = crateNameFromURL url;
          crateDir = crateDirFor crate (outDir d)
      in case mkdir_err io of
           Some err \<Rightarrow> (rec\<lparr>Error := err_text err, Status := ''error''\<rparr>, incErr w)
         | None \<Rightarrow>
             let outPath = filepath_Join [crateDir, name] in
             if files w outPath \<noteq> None \<and> fst (verifyFile H d w outPath url)
             then (rec\<lparr>Path := outPath, FinishedAt := finished_at io, OK := True,
                       Status := ''ok''\<rparr>, incOK w)
             else
               let tmpPath = outPath @ ''.part'';
                   attempts = max 1 (retries d);
                   st = attempt_loop d (attempt_ios io) url tmpPath outPath attempts 1
                          \<lparr>ls_world = w, ls_n = 0, ls_lastErr = None, ls_attemptCnt = 0,
                           ls_panicked = False\<rparr>
               in if ls_panicked st then (rec, (ls_world st)\<lparr>panicked := True\<rparr>)
                  else finish_fetch H d io url filesCh rec name outPath st)"

section \<open>The engine: \<open>Run\<close>\<close>

text \<open>
  \<open>Run\<close> starts \<open>concurrency\<close> workers, a result collector and a feeder, which talk over
  two unbuffered channels, and then waits. The goroutines are modelled by their control
  points and a scheduler: a schedule is the list of the atomic actions taken, and fixes
  both the interleaving and what the environment answers to each \<open>fetchOne\<close>.
  A worker is waiting on \<open>urlsCh\<close>, holds a URL, holds the Record it is sending on
  \<open>resultsCh\<close>, or has left its loop.
\<close>

datatype wstate = WIdle | WFetch string | WSend Record | WDone

text \<open>\<open>Run\<close> itself is at \<open>wg.Wait()\<close>, at \<open>doneCollect.Wait()\<close>, or has returned.\<close>

datatype main_pc = MWait | MJoin | MReturned

record run_state =
  feed :: "string list"
  urlsClosed :: bool
  workers :: "wstate list"
  resultsClosed :: bool
  collectorDone :: bool
  manifest :: "Record list"
  total :: int
  mainPc :: main_pc
  rs_world :: world

datatype action =
    Recv nat
  | Fetch nat fetch_io
  | Send nat
  | CloseUrls
  | Exit nat
  | WaitReturns
  | CollectorExit
  | Finish "go_error option" "go_error option" "go_error option"

text \<open>
  One action, \<open>None\<close> when it is not enabled:
  \<^item> \<open>Recv i\<close>: the feeder's send of the next URL meets worker \<open>i\<close>'s receive;
  \<^item> \<open>Fetch i io\<close>: worker \<open>i\<close> runs \<open>fetchOne\<close> (with a nil \<open>filesCh\<close>); when \<open>fetchOne\<close>
    panics, the worker never gets a Record to send;
  \<^item> \<open>Send i\<close>: worker \<open>i\<close>'s send meets the collector's receive; the collector encodes
    the Record into the manifest and counts it;
  \<^item> \<open>CloseUrls\<close>: the feeder, having sent every URL, closes \<open>urlsCh\<close>;
  \<^item> \<open>Exit i\<close>: worker \<open>i\<close> finds \<open>urlsCh\<close> closed and returns;
  \<^item> \<open>WaitReturns\<close>: every worker has returned, \<open>wg.Wait()\<close> returns and \<open>Run\<close> closes
    \<open>resultsCh\<close>;
  \<^item> \<open>CollectorExit\<close>: the collector finds \<open>resultsCh\<close> closed and returns;
  \<^item> \<open>Finish\<close>: \<open>doneCollect.Wait()\<close> returns, the bundler is closed, \<open>Run\<close> returns nil.
\<close>

fun step :: "(string \<Rightarrow> string) \<Rightarrow> Downloader \<Rightarrow> action \<Rightarrow> run_state \<Rightarrow> run_state option" where
  "step H d (Recv i) s =
     (case feed s of
        [] \<Rightarrow> None
      | u # us \<Rightarrow>
          if i < length (workers s) \<and> workers s ! i = WIdle \<and> \<not> urlsClosed s
          then Some (s\<lparr>feed := us, workers := (workers s)[i := WFetch u]\<rparr>)
          else None)"
| "step H d (Fetch i io) s =
     (if i < length (workers s)
      then (case workers s ! i of
              WFetch u \<Rightarrow>
                let (rec, w) = fetchOne H d io u False (rs_world s)
                in if panicked w then Some (s\<lparr>rs_world := w\<rparr>)
                   else Some (s\<lparr>workers := (workers s)[i := WSend rec], rs_world := w\<rparr>)
            | _ \<Rightarrow> None)
      else None)"
| "step H d (Send i) s =
     (if i < length (workers s) \<and> \<not> resultsClosed s \<and> \<not> collectorDone s
      then (case workers s ! i of
              WSend rec \<Rightarrow>
                Some (s\<lparr>manifest := manifest s @ [rec], total := total s + 1,
                        workers := (workers s)[i := WIdle]\<rparr>)
            | _ \<Rightarrow> None)
      else None)"
| "step H d CloseUrls s =
     (if feed s = [] \<and> \<not> urlsClosed s then Some (s\<lparr>urlsClosed := True\<rparr>) else None)"
| "step H d (Exit i) s =
     (if i < length (workers s) \<and> workers s ! i = WIdle \<and> urlsClosed s
      then Some (s\<lparr>workers := (workers s)[i := WDone]\<rparr>)
      else None)"
| "step H d WaitReturns s =
     (if mainPc s = MWait \<and> list_all (\<lambda>ws. ws = WDone) (workers s)
      then Some (s\<lparr>resultsClosed := True, mainPc := MJoin\<rparr>)
      else None)"
| "step H d CollectorExit s =
     (if resultsClosed s \<and> \<not> collectorDone s then Some (s\<lparr>collectorDone := True\<rparr>)
      else None)"
| "step H d (Finish tar_err zst_err file_err) s =
     (if mainPc s = MJoin \<and> collectorDone s
      then Some (s\<lparr>mainPc := MReturned,
                   rs_world := (rs_world s)
                     \<lparr>bundler := map_option (\<lambda>b. fst (Close tar_err zst_err file_err b))
                                   (bundler (rs_world s))\<rparr>\<rparr>)
      else None)"

text \<open>
  The actions of a schedule in turn. Once a goroutine has panicked the process is dead
  and no action follows.
\<close>

fun exec ::
  "(string \<Rightarrow> string) \<Rightarrow> Downloader \<Rightarrow> action list \<Rightarrow> run_state \<Rightarrow> run_state option" where
  "exec H d [] s = Some s"
| "exec H d (a # as) s =
     (if panicked (rs_world s) then None
      else case step H d a s of None \<Rightarrow> None | Some s' \<Rightarrow> exec H d as s')"

text \<open>The state after the goroutines are started: \<open>concurrency\<close> workers, none if it is not positive.\<close>

definition Run_start :: "Downloader \<Rightarrow> string list \<Rightarrow> world \<Rightarrow> run_state" where
  "Run_start d urls w =
     \<lparr>feed = urls, urlsClosed = False, workers = replicate (nat (concurrency d)) WIdle,
      resultsClosed = False, collectorDone = False, manifest = [], total = 0,
      mainPc = MWait, rs_world = w\<rparr>"

text \<open>
  \<open>Run\<close> under a schedule: the error of \<open>os.MkdirAll\<close>, or the state in which \<open>Run\<close>
  returns nil; \<open>None\<close> when the schedule is not an execution of \<open>Run\<close> up to its return
  (in particular when the process dies of a panic on the way).
\<close>

definition Run ::
  "(string \<Rightarrow> string) \<Rightarrow> Downloader \<Rightarrow> go_error option \<Rightarrow> action list \<Rightarrow> string list \<Rightarrow> world
     \<Rightarrow> (go_error + run_state) option" where
  "Run H d mkdir_error sched urls w =
     (case mkdir_error of
        Some err \<Rightarrow> Some (Inl err)
      | None \<Rightarrow>
          (case exec H d sched (Run_start d urls w) of
             None \<Rightarrow> None
           | Some s \<Rightarrow> if mainPc s = MReturned then Some (Inr s) else None))"

text \<open>
  The schedule in which worker 0 handles every URL in turn and then all workers leave;
  \<open>ios\<close> gives the environment's answers, one per URL.
\<close>

definition sequential :: "nat \<Rightarrow> fetch_io list \<Rightarrow> action list" where
  "sequential k ios =
     concat (map (\<lambda>io. [Recv 0, Fetch 0 io, Send 0]) ios)
       @ [CloseUrls] @ map Exit [0..<k] @ [WaitReturns, CollectorExit, Finish None None None]"

section \<open>Checksum file\<close>

text \<open>The line format \<open>ChecksumEntry\<close>.\<close>

datatype ChecksumEntry = ChecksumEntry (ce_URL: string) (ce_SHA256: string)

text \<open>
  One line of the file as \<open>json.Unmarshal(bytes.TrimSpace(b), &ce)\<close> answers it: an
  error, or the decoded entry (a missing field is the empty string). \<open>encoding/json\<close> is
  library code.
\<close>

datatype json_line = Malformed | Decoded ChecksumEntry

text \<open>The read loop of \<open>ReadChecksums\<close>, over the lines in file order.\<close>

fun read_lines :: "json_line list \<Rightarrow> (string \<rightharpoonup> string) \<Rightarrow> (string \<rightharpoonup> string)" where
  "read_lines [] out = out"
| "read_lines (Malformed # ls) out = read_lines ls out"
| "read_lines (Decoded ce # ls) out =
     read_lines ls
       (if ce_URL ce \<noteq> [] \<and> ce_SHA256 ce \<noteq> []
        then out(ce_URL ce \<mapsto> ToLower (ce_SHA256 ce)) else out)"

text \<open>
  The argument of \<open>ReadChecksums\<close> as the file system presents it: an empty path, a file
  that cannot be opened, or the lines read up to the end of the file (\<open>None\<close>) or up to a
  read error.
\<close>

datatype checksum_file =
    NoPath
  | OpenFails go_error
  | Lines "json_line list" "go_error option"

fun ReadChecksums :: "checksum_file \<Rightarrow> (string \<rightharpoonup> string) option \<times> go_error option" where
  "ReadChecksums NoPath = (Some Map.empty, None)"
| "ReadChecksums (OpenFails err) = (None, Some err)"
| "ReadChecksums (Lines ls rerr) = (Some (read_lines ls Map.empty), rerr)"

text \<open>The entries that the loop stores: decoded, with both fields non-empty.\<close>

fun stored_entries :: "json_line list \<Rightarrow> (string \<times> string) list" where
  "stored_entries [] = []"
| "stored_entries (Malformed # ls) = stored_entries ls"
| "stored_entries (Decoded ce # ls) =
     (if ce_URL ce \<noteq> [] \<and> ce_SHA256 ce \<noteq> []
      then (ce_URL ce, ce_SHA256 ce) # stored_entries ls else stored_entries ls)"

text \<open>
  Lines that store the same URL agree on the lower-cased digest: the condition under
  which the order of the lines cannot matter.
\<close>

definition urls_agree :: "json_line list \<Rightarrow> bool" where
  "urls_agree ls =
     (\<forall>(u, s) \<in> set (stored_entries ls). \<forall>(u', s') \<in> set (stored_entries ls).
        u = u' \<longrightarrow> ToLower s = ToLower s')"

text \<open>
  An attempt that fails retryably: the temporary file is created, the request is built
  and ends in a transport error, a status 408, 425, 429 or at least 500, or a failed body copy,
  none of them a context error.
\<close>

definition retryable_status :: "int \<Rightarrow> bool" where
  "retryable_status code = (code = 408 \<or> code = 425 \<or> code = 429 \<or> code \<ge> 500)"

definition retryable_failure :: "attempt_io \<Rightarrow> bool" where
  "retryable_failure io =
     (tmp_create_err io = None \<and>
      (case do_result io of
         NoRequest err \<Rightarrow> False
       | DoError err \<Rightarrow> \<not> is_context_err err
       | Response code body cerr \<Rightarrow>
           if code = 200 then (case cerr of Some err \<Rightarrow> \<not> is_context_err err | None \<Rightarrow> False)
           else retryable_status code))"

text \<open>The state in which \<open>fetchOne\<close> enters its retry loop.\<close>

definition loop_start :: "world \<Rightarrow> loop_state" where
  "loop_start w =
     \<lparr>ls_world = w, ls_n = 0, ls_lastErr = None, ls_attemptCnt = 0, ls_panicked = False\<rparr>"

text \<open>The Record as \<open>fetchOne\<close> first builds it.\<close>

definition rec_start :: "fetch_io \<Rightarrow> string \<Rightarrow> Record" where
  "rec_start io url = \<lparr>SchemaVersion = 1, URL = url, Path = [], Size = 0, SHA256 = [],
                 StartedAt = started_at io, FinishedAt = [], OK = False, Error = [],
                 Retries = 0, Status = []\<rparr>"

section \<open>Concrete instances\<close>

text \<open>
  Inputs for the concrete instances below: an environment without local errors, a
  server that gives the same answer to every attempt, a world with the given files and
  no bundler, and a stand-in for the digest function (the theorems hold for every \<open>H\<close>).
\<close>

definition no_errors :: bundle_io where
  "no_errors =
     \<lparr>stat_err = None, bundle_create_err = None, zstd_err = None, open_err = None,
      header_err = None, copy_err = None\<rparr>"

definition answer :: "http_result \<Rightarrow> attempt_io" where
  "answer r = \<lparr>tmp_create_err = None, do_result = r, rename_err = None, unix_nano = 0\<rparr>"

definition always :: "http_result \<Rightarrow> fetch_io" where
  "always r =
     \<lparr>started_at = ''2025-01-01T00:00:00Z'', finished_at = ''2025-01-01T00:00:01Z'',
      mkdir_err = None, attempt_ios = (\<lambda>k. answer r), add_io = no_errors\<rparr>"

definition world_with :: "(string \<rightharpoonup> string) \<Rightarrow> world" where
  "world_with fm =
     \<lparr>files = fm, requests = [], sleeps = [], okCount = 0, errCount = 0, bundler = None,
      filesSent = [], panicked = False\<rparr>"

definition demo_digest :: "string \<Rightarrow> string" where
  "demo_digest content = ''sha256:'' @ content"

definition demo_url :: string where
  "demo_url = ''https://static.crates.io/crates/serde/serde-1.0.0.crate''"

text \<open>
  A downloader that expects the digest \<open>SHA256:ABC\<close> (in upper case) for \<open>demo_url\<close>, and a
  world in which the target file of \<open>demo_url\<close> is already there with content \<open>abc\<close>.
\<close>

definition demo_downloader :: Downloader where
  "demo_downloader = NewDownloader ''out'' 4 [demo_url \<mapsto> ''SHA256:ABC'']"

definition demo_resume_world :: world where
  "demo_resume_world = world_with [''out/s/er/serde-1.0.0.crate'' \<mapsto> ''abc'']"

text \<open>
  An attempt after which the temporary file is still there: the file was created, and
  then the request could not be built (the goroutine panics), or the server answered
  200 and the body copy or the rename failed.
\<close>

definition keeps_part :: "attempt_io \<Rightarrow> bool" where
  "keeps_part aio =
     (tmp_create_err aio = None \<and>
      (case do_result aio of
         NoRequest err \<Rightarrow> True
       | DoError err \<Rightarrow> False
       | Response code body cerr \<Rightarrow> code = 200 \<and> (cerr \<noteq> None \<or> rename_err aio \<noteq> None)))"

text \<open>A server whose body breaks off after \<open>ab\<close> when the request's deadline expires.\<close>

definition deadline_mid_body :: fetch_io where
  "deadline_mid_body =
     always (Response 200 ''ab'' (Some (GoError WrapsDeadline ''context deadline exceeded'')))"

section \<open>Notions for the bundler's properties\<close>

text \<open>The path of the bundle with a given index, as \<open>rotateLocked\<close> builds it.\<close>

definition bundle_path :: "string \<Rightarrow> int \<Rightarrow> string" where
  "bundle_path out idx = filepath_Join [out, bundle_name idx]"

text \<open>
  A call that started in \<open>b\<close> and ended in \<open>b'\<close> rotated: its first three calls on the
  writers closed the tar writer, the zstd encoder and the file, in this order.
\<close>

definition rotated :: "Bundler \<Rightarrow> Bundler \<Rightarrow> bool" where
  "rotated b b' =
     (take (length (events b) + 3) (events b') = events b @ [TarClose, ZstdClose, FileClose])"

text \<open>
  What holds of a bundler made by \<open>NewBundler\<close> at every moment, as long as
  \<open>zstd.NewWriter\<close> does not fail: its writers are not nil, and the files it has
  created are the bundles \<open>0\<close> to \<open>currentIdx - 1\<close>, each created once, in order.
\<close>

definition bundler_inv :: "Bundler \<Rightarrow> bool" where
  "bundler_inv b =
     (enabled b \<and> tw b \<noteq> HNil \<and> zw b \<noteq> HNil \<and> outFile b \<noteq> HNil \<and> 1 \<le> currentIdx b
      \<and> created b = map (\<lambda>i. bundle_path (bOutDir b) (int i)) [0..<nat (currentIdx b)])"

text \<open>Reading a decimal numeral back; it shows that the formatting loses nothing.\<close>

definition digit_val :: "char \<Rightarrow> nat" where
  "digit_val c = (case map_of (zip ''0123456789'' [0, 1, 2, 3, 4, 5, 6, 7, 8, 9]) c of
                    Some v \<Rightarrow> v | None \<Rightarrow> 0)"

definition dec_val :: "string \<Rightarrow> nat" where
  "dec_val s = foldl (\<lambda>acc c. 10 * acc + digit_val c) 0 s"

text \<open>
  The bundler of the repository's rotation test: threshold 0, so that every file
  rotates; \<open>first_bundle\<close> is what \<open>NewBundler\<close> returns, \<open>add_a\<close> adds a one-byte file.
\<close>

definition first_bundle :: Bundler where
  "first_bundle =
     \<lparr>enabled = True, bOutDir = ''bundles'', targetBytes = 0, currentIdx = 1,
      currentBytes = 0, tw = HOpen, zw = HOpen, outFile = HOpen,
      created = [''bundles/bundle-0000.tar.zst''],
      events = [FileCreate ''bundles/bundle-0000.tar.zst'']\<rparr>"

definition add_a :: add_call where
  "add_a = (no_errors, [''a.txt'' \<mapsto> ''A''], ''a.txt'', ''a.txt'')"

section \<open>Notions for the engine's properties\<close>

text \<open>The URL a worker is busy with, as a multiset of at most one element.\<close>

fun in_flight :: "wstate \<Rightarrow> string multiset" where
  "in_flight (WFetch u) = {#u#}"
| "in_flight (WSend rec) = {#URL rec#}"
| "in_flight WIdle = {#}"
| "in_flight WDone = {#}"

text \<open>
  What holds in every state of a run over \<open>urls\<close>: each URL is still to be fed, with a
  worker, or in the manifest; the feeder closes \<open>urlsCh\<close> only when it has sent
  everything; a worker leaves only after that; \<open>Run\<close> passes \<open>wg.Wait()\<close> only when all
  workers have left, and closes \<open>resultsCh\<close> exactly then; the collector leaves only
  after that, and \<open>Run\<close> returns only after the collector has left.
\<close>

definition run_inv :: "Downloader \<Rightarrow> string list \<Rightarrow> run_state \<Rightarrow> bool" where
  "run_inv d urls s =
     (mset (map URL (manifest s)) + sum_list (map in_flight (workers s)) + mset (feed s)
        = mset urls
      \<and> (urlsClosed s \<longrightarrow> feed s = [])
      \<and> (WDone \<in> set (workers s) \<longrightarrow> urlsClosed s)
      \<and> (mainPc s \<noteq> MWait \<longrightarrow> list_all (\<lambda>ws. ws = WDone) (workers s))
      \<and> resultsClosed s = (mainPc s \<noteq> MWait)
      \<and> (collectorDone s \<longrightarrow> resultsClosed s)
      \<and> (mainPc s = MReturned \<longrightarrow> collectorDone s)
      \<and> total s = int (length (manifest s))
      \<and> length (workers s) = nat (concurrency d))"

text \<open>
  A panic leaves its trace: when the process has panicked, some worker still holds the
  URL it was fetching.
\<close>

definition panic_inv :: "run_state \<Rightarrow> bool" where
  "panic_inv s =
     (panicked (rs_world s) \<longrightarrow>
        (\<exists>i u. i < length (workers s) \<and> workers s ! i = WFetch u))"

text \<open>
  A URL that \<open>net/url\<close> does not parse (\<open>%zz\<close> is not a percent-escape), as a line of a
  \<open>-list\<close> file may hold it, and what the environment answers for it:
  \<open>http.NewRequestWithContext\<close> returns a nil request and the parse error.
\<close>

definition bad_url :: string where
  "bad_url = ''https://static.crates.io/crates/bad/bad-1.0.0%zz.crate''"

definition unparsable :: fetch_io where
  "unparsable = always (NoRequest (GoError Plain ''invalid URL escape %zz''))"

section \<open>Notions for the properties of paths\<close>

text \<open>
  What \<open>filepath.Clean\<close> makes of \<open>p\<close> followed by a separator, when a plain element
  comes next; and what \<open>filepath.Join\<close> puts before a plain last element.
\<close>

definition clean_prefix :: "string \<Rightarrow> string" where
  "clean_prefix p =
     (let rooted = HasPrefix p ''/'';
          kept = foldl (clean_elem rooted) [] (Split p (CHR ''/''))
      in (if rooted then ''/'' else []) @ (if kept = [] then [] else join_sep (rev kept) @ ''/''))"

definition join_prefix :: "string \<Rightarrow> string" where
  "join_prefix p = (if p = [] then [] else clean_prefix p)"

section \<open>Paths\<close>

lemma Split_not_Nil: "Split s c \<noteq> []"
  by (induction s) (auto split: list.splits)

lemma Split_append_sep:
  "Split (a @ c # b) c = Split a c @ Split b c"
  by (induction a) (auto simp: Split_not_Nil split: list.splits)

lemma Clean_Nil: "filepath_Clean [] = ''.''"
  by (simp add: filepath_Clean_def clean_elem_def HasPrefix_def)

lemma Clean_not_Nil: "filepath_Clean p \<noteq> []"
  by (simp add: filepath_Clean_def Let_def)

lemma Split_no_sep: "c \<notin> set e \<Longrightarrow> Split e c = [e]"
  by (induction e) auto

lemma join_sep_snoc:
  "join_sep (ys @ [e]) = (if ys = [] then e else join_sep ys @ ''/'' @ e)"
  by (induction ys rule: join_sep.induct) auto

lemma clean_elem_plain: "plain_elem e \<Longrightarrow> clean_elem r kept e = e # kept"
  by (simp add: clean_elem_def plain_elem_def)

lemma Clean_append_plain:
  assumes "plain_elem e" "p \<noteq> []"
  shows "filepath_Clean (p @ ''/'' @ e) = clean_prefix p @ e"
proof -
  from assms(2) have r: "HasPrefix (p @ CHR ''/'' # e) ''/'' = HasPrefix p ''/''"
    by (cases p) (simp_all add: HasPrefix_def)
  from assms(1) have s: "Split (p @ CHR ''/'' # e) (CHR ''/'') = Split p (CHR ''/'') @ [e]"
    by (simp add: Split_append_sep Split_no_sep plain_elem_def)
  from assms(1) have ne: "e \<noteq> []" by (simp add: plain_elem_def)
  show ?thesis
    by (simp add: filepath_Clean_def clean_prefix_def r s clean_elem_plain[OF assms(1)]
        join_sep_snoc ne Let_def)
qed

lemma Clean_plain: "plain_elem e \<Longrightarrow> filepath_Clean e = e"
  by (cases e) (auto simp: filepath_Clean_def plain_elem_def Split_no_sep clean_elem_def HasPrefix_def Let_def)

lemma join_sep_Nil_iff: "[] \<notin> set xs \<Longrightarrow> join_sep xs = [] \<longleftrightarrow> xs = []"
  by (induction xs rule: join_sep.induct) auto

lemma clean_elem_nonempty: "[] \<notin> set kept \<Longrightarrow> [] \<notin> set (clean_elem r kept e)"
  by (auto simp: clean_elem_def split: list.splits)

lemma foldl_clean_nonempty:
  "[] \<notin> set kept \<Longrightarrow> [] \<notin> set (foldl (clean_elem r) kept es)"
  by (induction es arbitrary: kept) (simp_all add: clean_elem_nonempty)

lemma clean_dir_prefix:
  assumes "clean_dir p"
  shows "clean_prefix p = p @ ''/''"
proof -
  let ?r = "HasPrefix p ''/''"
  let ?k = "foldl (clean_elem ?r) [] (Split p (CHR ''/''))"
  have ne: "[] \<notin> set ?k" by (rule foldl_clean_nonempty) simp
  then have b: "join_sep (rev ?k) = [] \<longleftrightarrow> ?k = []"
    using join_sep_Nil_iff[of "rev ?k"] by simp
  from assms have c: "filepath_Clean p = p" "p \<noteq> ''.''" "p \<noteq> ''/''"
    by (simp_all add: clean_dir_def)
  show ?thesis
  proof (cases ?r)
    case True
    with c(1) have p: "p = ''/'' @ join_sep (rev ?k)"
      by (simp add: filepath_Clean_def Let_def)
    with c(3) have "join_sep (rev ?k) \<noteq> []" by auto
    with b have "?k \<noteq> []" by simp
    with True p show ?thesis by (simp add: clean_prefix_def Let_def)
  next
    case False
    with c(1,2) have p: "join_sep (rev ?k) \<noteq> []" "p = join_sep (rev ?k)"
      by (auto simp: filepath_Clean_def Let_def split: if_splits)
    with b have "?k \<noteq> []" by simp
    with False p show ?thesis by (simp add: clean_prefix_def Let_def)
  qed
qed

lemma clean_dir_append:
  assumes "clean_dir p" "plain_elem e"
  shows "filepath_Clean (p @ ''/'' @ e) = p @ ''/'' @ e" and "clean_dir (p @ ''/'' @ e)"
proof -
  from assms(1) have ne: "p \<noteq> []"
    using Clean_not_Nil[of p] by (auto simp: clean_dir_def)
  show c: "filepath_Clean (p @ ''/'' @ e) = p @ ''/'' @ e"
    by (simp only: Clean_append_plain[OF assms(2) ne] clean_dir_prefix[OF assms(1)]) simp
  from ne have "p @ ''/'' @ e \<noteq> [x]" for x by (cases p) simp_all
  then have "p @ ''/'' @ e \<noteq> ''.''" "p @ ''/'' @ e \<noteq> ''/''" by blast+
  with c show "clean_dir (p @ ''/'' @ e)" by (simp add: clean_dir_def)
qed

lemma clean_dir_not_Nil: "clean_dir p \<Longrightarrow> p \<noteq> []"
  using Clean_not_Nil[of p] by (auto simp: clean_dir_def)

lemma Join_dir_elem:
  "clean_dir p \<Longrightarrow> plain_elem e \<Longrightarrow> filepath_Join [p, e] = p @ ''/'' @ e"
  using clean_dir_append(1)[of p e] by (simp add: filepath_Join_def clean_dir_not_Nil)

lemma Join_dir_elems:
  assumes "clean_dir p" "plain_elem e" "plain_elem f"
  shows "filepath_Join [p, e, f] = p @ ''/'' @ e @ ''/'' @ f"
proof -
  from assms(1) have ne: "p \<noteq> []"
    using Clean_not_Nil[of p] by (auto simp: clean_dir_def)
  from clean_dir_append(1)[OF clean_dir_append(2)[OF assms(1,2)] assms(3)]
  show ?thesis using ne by (simp add: filepath_Join_def)
qed

lemma Join_plain_last:
  assumes "plain_elem e"
  shows "filepath_Join [p, e] = join_prefix p @ e"
proof (cases "p = []")
  case True
  with assms show ?thesis
    by (simp add: filepath_Join_def join_prefix_def Clean_plain plain_elem_def)
next
  case False
  with Clean_append_plain[OF assms False] show ?thesis
    by (simp add: filepath_Join_def join_prefix_def)
qed



section \<open>The shard rule\<close>

lemma crateDirFor_short:
  "name \<noteq> [] \<Longrightarrow> length name \<le> 3 \<Longrightarrow> crateDirFor name out = filepath_Join (out # spec_shards name)"
  by (simp add: crateDirFor_def spec_shards_def)

lemma crateDirFor_long:
  assumes "\<not> length name \<le> 3"
  shows "crateDirFor name out = filepath_Join (out # spec_shards name)"
proof -
  from assms obtain a b c e rest where n: "name = a # b # c # e # rest"
    by (cases name; simp; cases "tl name"; simp; cases "tl (tl name)"; simp;
        cases "tl (tl (tl name))"; simp)
  show ?thesis
    by (simp add: n crateDirFor_def spec_shards_def spec_first_shard_def
        spec_second_shard_def HasPrefix_def slice_def Let_def)
qed

lemma crateDirFor_Join:
  "name \<noteq> [] \<Longrightarrow> crateDirFor name out = filepath_Join (out # spec_shards name)"
  using crateDirFor_short crateDirFor_long by blast

lemma Join_spec_shards:
  assumes "clean_dir out" "list_all plain_elem (spec_shards name)"
  shows "filepath_Join (out # spec_shards name) = spec_shard_dir name out"
proof (cases "length name \<le> 3")
  case True
  with assms show ?thesis
    by (simp add: spec_shards_def spec_shard_dir_def Join_dir_elem)
next
  case False
  with assms show ?thesis
    by (simp add: spec_shards_def spec_shard_dir_def Join_dir_elems)
qed

lemma plain_shards_not_Nil: "list_all plain_elem (spec_shards name) \<Longrightarrow> name \<noteq> []"
  by (auto simp: spec_shards_def plain_elem_def)

lemma x_ray_shards: "spec_shards ''x-ray'' = [''x-'', ''ra'']"
  by (simp add: spec_shards_def spec_first_shard_def spec_second_shard_def)

text \<open>
  Claim C5. The downloader's \<open>crateDirFor\<close> and the sidecar generator's \<open>CrateDirFor\<close>
  are the same function. For a name that is not empty it joins the output directory with
  the shards of the specification: the name itself as the only directory when it has at
  most three bytes; otherwise the first shard (the first byte when the name starts with
  1, 2 or 3, the first two bytes when the second byte is a hyphen, the first byte
  otherwise) followed by the second shard (the next two bytes, clamped by the end of the
  name). The join is \<open>filepath.Join\<close>, which cleans the path; when the output directory
  is a clean path (other than \<open>.\<close> and the root) and no shard is \<open>.\<close> or \<open>..\<close> or
  contains a separator, the result is literally \<open><outDir>/<first shard>/<second shard>\<close>
  (\<open><outDir>/<name>\<close> for a short name). The name \<open>x-ray\<close> resolves to the join of the
  output directory, \<open>x-\<close> and \<open>ra\<close>, which is \<open><outDir>/x-/ra\<close> for a clean output
  directory. For the empty name the result is the output directory as given.
\<close>

theorem crateDirFor_shard_rule:
  "CrateDirFor name out = crateDirFor name out
   \<and> crateDirFor [] out = out
   \<and> (name \<noteq> [] \<longrightarrow> crateDirFor name out = filepath_Join (out # spec_shards name))
   \<and> (clean_dir out \<and> list_all plain_elem (spec_shards name) \<longrightarrow>
        crateDirFor name out = spec_shard_dir name out)
   \<and> crateDirFor ''x-ray'' out = filepath_Join [out, ''x-'', ''ra'']
   \<and> (clean_dir out \<longrightarrow> crateDirFor ''x-ray'' out = out @ ''/x-/ra'')"
proof (intro conjI impI)
  show "CrateDirFor name out = crateDirFor name out"
    by (simp add: CrateDirFor_def crateDirFor_def)
  show "crateDirFor [] out = out"
    by (simp add: crateDirFor_def)
  show "crateDirFor name out = filepath_Join (out # spec_shards name)" if "name \<noteq> []"
    using that by (rule crateDirFor_Join)
  show "crateDirFor name out = spec_shard_dir name out"
    if "clean_dir out \<and> list_all plain_elem (spec_shards name)"
    using that crateDirFor_Join[OF plain_shards_not_Nil, of name out] Join_spec_shards[of out name]
    by simp
  have x: "crateDirFor ''x-ray'' out = filepath_Join [out, ''x-'', ''ra'']"
    using crateDirFor_Join[of "''x-ray''" out] by (simp add: x_ray_shards)
  show "crateDirFor ''x-ray'' out = filepath_Join [out, ''x-'', ''ra'']" by (rule x)
  show "crateDirFor ''x-ray'' out = out @ ''/x-/ra''" if "clean_dir out"
    using Join_dir_elems[OF that, of "''x-''" "''ra''"] by (simp add: x plain_elem_def)
qed

lemma clean_dir_out: "clean_dir ''out''"
  by (simp add: clean_dir_def filepath_Clean_def clean_elem_def HasPrefix_def)

theorem crateDirFor_shard_rule_witness:
  "clean_dir ''out''
   \<and> ''serde'' \<noteq> []
   \<and> list_all plain_elem (spec_shards ''serde'')
   \<and> spec_shards ''serde'' = [''s'', ''er'']
   \<and> crateDirFor ''serde'' ''out'' = ''out/s/er''
   \<and> CrateDirFor ''serde'' ''out'' = ''out/s/er''
   \<and> crateDirFor ''x-ray'' ''out'' = ''out/x-/ra''"
proof -
  have h1: "clean_dir ''out''" by (rule clean_dir_out)
  have h2: "spec_shards ''serde'' = [''s'', ''er'']"
    by (simp add: spec_shards_def spec_first_shard_def spec_second_shard_def)
  have h3: "list_all plain_elem (spec_shards ''serde'')"
    by (simp add: h2 plain_elem_def)
  have h4: "spec_shard_dir ''serde'' ''out'' = ''out/s/er''"
    by (simp add: spec_shard_dir_def h2)
  from crateDirFor_shard_rule[of "''serde''" "''out''"] h1 h3
  have r: "CrateDirFor ''serde'' ''out'' = crateDirFor ''serde'' ''out''"
    "crateDirFor ''serde'' ''out'' = spec_shard_dir ''serde'' ''out''"
    "crateDirFor ''x-ray'' ''out'' = ''out'' @ ''/x-/ra''"
    by blast+
  have h5: "crateDirFor ''serde'' ''out'' = ''out/s/er''"
    by (simp only: r(2) h4)
  have h6: "CrateDirFor ''serde'' ''out'' = ''out/s/er''"
    by (simp only: r(1) h5)
  have h7: "crateDirFor ''x-ray'' ''out'' = ''out/x-/ra''"
    using r(3) by simp
  have h8: "''serde'' \<noteq> []" by simp
  show ?thesis by (intro conjI; fact)
qed

text \<open>
  Outside these conditions the cleaning shows: a leading \<open>./\<close> or a trailing separator
  of the output directory disappears, and a shard \<open>..\<close> removes the element before it.
\<close>

lemma crateDirFor_cleans:
  "crateDirFor ''x-ray'' ''./out'' = ''out/x-/ra''"
  "crateDirFor ''serde'' ''out/'' = ''out/s/er''"
  "crateDirFor ''a..b'' ''out'' = ''out''"
  "crateDirFor ''..'' ''out'' = ''.''"
  "crateDirFor ''x-ray'' [] = ''x-/ra''"
  by (simp_all add: crateDirFor_def filepath_Join_def filepath_Clean_def clean_elem_def
      HasPrefix_def slice_def Let_def)

section \<open>The checksum file and the order of its lines\<close>

lemma set_stored_entries:
  "set (stored_entries ls) =
     {(u, s). Decoded (ChecksumEntry u s) \<in> set ls \<and> u \<noteq> [] \<and> s \<noteq> []}"
proof (induction ls)
  case Nil
  show ?case by simp
next
  case (Cons l ls)
  show ?case
  proof (cases l)
    case Malformed
    with Cons show ?thesis by auto
  next
    case (Decoded ce)
    with Cons show ?thesis by (cases ce) auto
  qed
qed

lemma read_lines_miss:
  "u \<notin> fst ` set (stored_entries ls) \<Longrightarrow> read_lines ls out u = out u"
  by (induction ls out rule: read_lines.induct) (auto split: if_splits)

lemma read_lines_hit:
  "(u, s) \<in> set (stored_entries ls) \<Longrightarrow>
     \<exists>s'. (u, s') \<in> set (stored_entries ls) \<and> read_lines ls out u = Some (ToLower s')"
proof (induction ls arbitrary: out s)
  case Nil
  then show ?case by simp
next
  case (Cons l ls)
  show ?case
  proof (cases "u \<in> fst ` set (stored_entries ls)")
    case True
    then obtain s0 where s0: "(u, s0) \<in> set (stored_entries ls)" by auto
    show ?thesis
    proof (cases l)
      case Malformed
      with Cons.IH[OF s0, of out] show ?thesis by auto
    next
      case (Decoded ce)
      let ?out = "if ce_URL ce \<noteq> [] \<and> ce_SHA256 ce \<noteq> []
                  then out(ce_URL ce \<mapsto> ToLower (ce_SHA256 ce)) else out"
      from Cons.IH[OF s0, of ?out] obtain s' where
        s': "(u, s') \<in> set (stored_entries ls)" "read_lines ls ?out u = Some (ToLower s')"
        by blast
      have "read_lines (l # ls) out u = read_lines ls ?out u"
        using Decoded by simp
      moreover have "(u, s') \<in> set (stored_entries (l # ls))"
        using s'(1) Decoded by simp
      ultimately show ?thesis using s'(2) by metis
    qed
  next
    case False
    with Cons.prems obtain ce where l: "l = Decoded ce"
      and here: "ce_URL ce = u" "ce_SHA256 ce = s" "u \<noteq> []" "s \<noteq> []"
      by (cases l) (auto split: if_splits simp: image_iff)
    from False have "read_lines (l # ls) out u = Some (ToLower s)"
      using l here by (simp add: read_lines_miss)
    with Cons.prems show ?thesis by blast
  qed
qed

lemma read_lines_value:
  "read_lines ls Map.empty u = Some v \<Longrightarrow>
     \<exists>s. (u, s) \<in> set (stored_entries ls) \<and> v = ToLower s"
proof (cases "u \<in> fst ` set (stored_entries ls)")
  case True
  assume r: "read_lines ls Map.empty u = Some v"
  from True obtain s0 where "(u, s0) \<in> set (stored_entries ls)" by auto
  from read_lines_hit[OF this, of Map.empty] r show ?thesis by auto
next
  case False
  assume r: "read_lines ls Map.empty u = Some v"
  with read_lines_miss[OF False, of Map.empty] show ?thesis by simp
qed

lemma read_lines_agree:
  assumes "urls_agree ls" "(u, s) \<in> set (stored_entries ls)"
  shows "read_lines ls out u = Some (ToLower s)"
proof -
  from read_lines_hit[OF assms(2), of out] obtain s' where
    s': "(u, s') \<in> set (stored_entries ls)" "read_lines ls out u = Some (ToLower s')" by blast
  from assms s'(1) have "ToLower s' = ToLower s" unfolding urls_agree_def by blast
  with s'(2) show ?thesis by simp
qed

lemma read_lines_append:
  "read_lines (xs @ ys) out = read_lines ys (read_lines xs out)"
  by (induction xs out rule: read_lines.induct) simp_all

lemma read_lines_last_wins:
  assumes "u \<noteq> []" "s \<noteq> []" "u \<notin> fst ` set (stored_entries after)"
  shows "read_lines (before @ [Decoded (ChecksumEntry u s)] @ after) out u = Some (ToLower s)"
  using assms by (simp add: read_lines_append read_lines_miss)

text \<open>
  Claim C9, as amended. ReadChecksums gives the same URL-to-digest map for every
  permutation of the input lines, provided that lines storing the same URL agree on the
  lower-cased digest. In general the line read last wins: the value of a URL is the
  lower-cased \<open>sha256\<close> field of the last line that stores this URL (a decoded line
  with both fields non-empty), and a URL that no line stores is not in the map. Every
  value in the map is the lower-cased \<open>sha256\<close> field of a line of the input with that
  URL.
\<close>

theorem ReadChecksums_permutation:
  "(mset ls' = mset ls \<and> urls_agree ls \<longrightarrow>
      ReadChecksums (Lines ls' rerr) = ReadChecksums (Lines ls rerr))
   \<and> (ls = before @ [Decoded (ChecksumEntry u s)] @ after \<and> u \<noteq> [] \<and> s \<noteq> []
        \<and> u \<notin> fst ` set (stored_entries after) \<longrightarrow>
        map_option (\<lambda>m. m u) (fst (ReadChecksums (Lines ls rerr))) = Some (Some (ToLower s)))
   \<and> (u' \<notin> fst ` set (stored_entries ls) \<longrightarrow>
        map_option (\<lambda>m. m u') (fst (ReadChecksums (Lines ls rerr))) = Some None)
   \<and> (\<forall>m k v. fst (ReadChecksums (Lines ls rerr)) = Some m \<and> m k = Some v \<longrightarrow>
         (\<exists>d. Decoded (ChecksumEntry k d) \<in> set ls \<and> v = ToLower d))"
proof (intro conjI allI impI)
  assume a: "mset ls' = mset ls \<and> urls_agree ls"
  then have "set ls' = set ls" by (auto dest: mset_eq_setD)
  then have se: "set (stored_entries ls') = set (stored_entries ls)"
    by (simp add: set_stored_entries)
  with a have ag': "urls_agree ls'" by (simp add: urls_agree_def)
  from a have ag: "urls_agree ls" by simp
  have "read_lines ls' Map.empty x = read_lines ls Map.empty x" for x
  proof (cases "x \<in> fst ` set (stored_entries ls)")
    case True
    then obtain d where d: "(x, d) \<in> set (stored_entries ls)" by auto
    with se have "(x, d) \<in> set (stored_entries ls')" by simp
    from read_lines_agree[OF ag' this] read_lines_agree[OF ag d] show ?thesis by simp
  next
    case False
    with se have "x \<notin> fst ` set (stored_entries ls')" by simp
    with False show ?thesis by (simp add: read_lines_miss)
  qed
  then have "read_lines ls' Map.empty = read_lines ls Map.empty" by (rule ext)
  then show "ReadChecksums (Lines ls' rerr) = ReadChecksums (Lines ls rerr)" by simp
next
  assume "ls = before @ [Decoded (ChecksumEntry u s)] @ after \<and> u \<noteq> [] \<and> s \<noteq> []
        \<and> u \<notin> fst ` set (stored_entries after)"
  then show "map_option (\<lambda>m. m u) (fst (ReadChecksums (Lines ls rerr))) = Some (Some (ToLower s))"
    using read_lines_last_wins[of u s after before Map.empty] by simp
next
  assume "u' \<notin> fst ` set (stored_entries ls)"
  then show "map_option (\<lambda>m. m u') (fst (ReadChecksums (Lines ls rerr))) = Some None"
    by (simp add: read_lines_miss)
next
  fix m k v
  assume "fst (ReadChecksums (Lines ls rerr)) = Some m \<and> m k = Some v"
  then have "read_lines ls Map.empty k = Some v" by auto
  from read_lines_value[OF this] show "\<exists>d. Decoded (ChecksumEntry k d) \<in> set ls \<and> v = ToLower d"
    by (auto simp: set_stored_entries)
qed

theorem ReadChecksums_permutation_witness:
  "mset [Decoded (ChecksumEntry ''v'' ''cd''), Decoded (ChecksumEntry ''u'' ''AB''), Malformed]
     = mset [Decoded (ChecksumEntry ''u'' ''AB''), Malformed, Decoded (ChecksumEntry ''v'' ''cd'')]
   \<and> urls_agree [Decoded (ChecksumEntry ''u'' ''AB''), Malformed, Decoded (ChecksumEntry ''v'' ''cd'')]
   \<and> ''u'' \<notin> fst ` set (stored_entries [Malformed, Decoded (ChecksumEntry ''v'' ''cd'')])
   \<and> ''w'' \<notin> fst ` set (stored_entries [Decoded (ChecksumEntry ''u'' ''AB''), Malformed, Decoded (ChecksumEntry ''v'' ''cd'')])
   \<and> ReadChecksums (Lines [Decoded (ChecksumEntry ''v'' ''cd''), Decoded (ChecksumEntry ''u'' ''AB''), Malformed] None)
     = ReadChecksums (Lines [Decoded (ChecksumEntry ''u'' ''AB''), Malformed, Decoded (ChecksumEntry ''v'' ''cd'')] None)
   \<and> map_option (\<lambda>m. m ''u'')
       (fst (ReadChecksums (Lines [Decoded (ChecksumEntry ''u'' ''AB''), Malformed, Decoded (ChecksumEntry ''v'' ''cd'')] None)))
     = Some (Some ''ab'')
   \<and> map_option (\<lambda>m. m ''w'')
       (fst (ReadChecksums (Lines [Decoded (ChecksumEntry ''u'' ''AB''), Malformed, Decoded (ChecksumEntry ''v'' ''cd'')] None)))
     = Some None"
proof -
  let ?ls = "[Decoded (ChecksumEntry ''u'' ''AB''), Malformed, Decoded (ChecksumEntry ''v'' ''cd'')]"
  let ?ls' = "[Decoded (ChecksumEntry ''v'' ''cd''), Decoded (ChecksumEntry ''u'' ''AB''), Malformed]"
  have h1: "mset ?ls' = mset ?ls" by simp
  have h2: "urls_agree ?ls" by (simp add: urls_agree_def)
  have h3: "''u'' \<notin> fst ` set (stored_entries [Malformed, Decoded (ChecksumEntry ''v'' ''cd'')])"
    by simp
  have h4: "''w'' \<notin> fst ` set (stored_entries ?ls)" by simp
  have sp: "?ls = [] @ [Decoded (ChecksumEntry ''u'' ''AB'')] @ [Malformed, Decoded (ChecksumEntry ''v'' ''cd'')]
            \<and> ''u'' \<noteq> [] \<and> ''AB'' \<noteq> []" by simp
  have lo: "ToLower ''AB'' = ''ab''" by (simp add: ToLower_def lower_byte_def)
  note T = ReadChecksums_permutation[where ls = ?ls and ls' = ?ls' and rerr = None
      and before = "[]" and u = "''u''" and s = "''AB''"
      and after = "[Malformed, Decoded (ChecksumEntry ''v'' ''cd'')]" and u' = "''w''"]
  from T h1 h2 have c1: "ReadChecksums (Lines ?ls' None) = ReadChecksums (Lines ?ls None)"
    by blast
  from T sp h3 have "map_option (\<lambda>m. m ''u'') (fst (ReadChecksums (Lines ?ls None)))
                       = Some (Some (ToLower ''AB''))" by blast
  then have c2: "map_option (\<lambda>m. m ''u'') (fst (ReadChecksums (Lines ?ls None))) = Some (Some ''ab'')"
    by (simp only: lo)
  from T h4 have c3: "map_option (\<lambda>m. m ''w'') (fst (ReadChecksums (Lines ?ls None))) = Some None"
    by blast
  show ?thesis by (intro conjI; fact)
qed

text \<open>
  Claim C9 as stated fails: two lines with the same URL and different digests are
  permutations of each other and give different maps, each holding the digest of the
  line that was read last.
\<close>

theorem ReadChecksums_order_counterexample:
  "mset [Decoded (ChecksumEntry ''u'' ''aa''), Decoded (ChecksumEntry ''u'' ''bb'')]
     = mset [Decoded (ChecksumEntry ''u'' ''bb''), Decoded (ChecksumEntry ''u'' ''aa'')]
   \<and> fst (ReadChecksums (Lines [Decoded (ChecksumEntry ''u'' ''aa''), Decoded (ChecksumEntry ''u'' ''bb'')] None))
       = Some [''u'' \<mapsto> ''bb'']
   \<and> fst (ReadChecksums (Lines [Decoded (ChecksumEntry ''u'' ''bb''), Decoded (ChecksumEntry ''u'' ''aa'')] None))
       = Some [''u'' \<mapsto> ''aa'']
   \<and> [''u'' \<mapsto> ''bb''] \<noteq> [''u'' \<mapsto> ''aa'']
   \<and> fst (ReadChecksums (Lines [Decoded (ChecksumEntry ''u'' ''aa''), Decoded (ChecksumEntry ''u'' ''bb'')] None))
       \<noteq> fst (ReadChecksums (Lines [Decoded (ChecksumEntry ''u'' ''bb''), Decoded (ChecksumEntry ''u'' ''aa'')] None))"
proof -
  have ne: "[''u'' \<mapsto> ''bb''] \<noteq> [''u'' \<mapsto> ''aa'']"
  proof
    assume "[''u'' \<mapsto> ''bb''] = [''u'' \<mapsto> ''aa'']"
    then have "[''u'' \<mapsto> ''bb''] ''u'' = [''u'' \<mapsto> ''aa''] ''u''" by simp
    then show False by simp
  qed
  have a: "fst (ReadChecksums (Lines [Decoded (ChecksumEntry ''u'' ''aa''), Decoded (ChecksumEntry ''u'' ''bb'')] None))
       = Some [''u'' \<mapsto> ''bb'']"
    by (simp add: ToLower_def lower_byte_def)
  have b: "fst (ReadChecksums (Lines [Decoded (ChecksumEntry ''u'' ''bb''), Decoded (ChecksumEntry ''u'' ''aa'')] None))
       = Some [''u'' \<mapsto> ''aa'']"
    by (simp add: ToLower_def lower_byte_def)
  have m: "mset [Decoded (ChecksumEntry ''u'' ''aa''), Decoded (ChecksumEntry ''u'' ''bb'')]
     = mset [Decoded (ChecksumEntry ''u'' ''bb''), Decoded (ChecksumEntry ''u'' ''aa'')]" by simp
  from a b ne have d: "fst (ReadChecksums (Lines [Decoded (ChecksumEntry ''u'' ''aa''), Decoded (ChecksumEntry ''u'' ''bb'')] None))
       \<noteq> fst (ReadChecksums (Lines [Decoded (ChecksumEntry ''u'' ''bb''), Decoded (ChecksumEntry ''u'' ''aa'')] None))"
    by simp
  show ?thesis by (intro conjI; fact)
qed

section \<open>The three paths of \<open>fetchOne\<close>\<close>

declare attempt_loop.simps [simp del]

lemma fetchOne_mkdir_fails:
  "mkdir_err io = Some err \<Longrightarrow>
   fetchOne H d io url fc w =
     ((rec_start io url)\<lparr>Error := err_text err, Status := ''error''\<rparr>, incErr w)"
  by (simp add: fetchOne_def rec_start_def Let_def)

lemma fetchOne_resume:
  "mkdir_err io = None \<Longrightarrow> resumes H d w url \<Longrightarrow>
   fetchOne H d io url fc w =
     ((rec_start io url)\<lparr>Path := target_path H d url, FinishedAt := finished_at io,
                          OK := True, Status := ''ok''\<rparr>, incOK w)"
  by (simp add: fetchOne_def resumes_def target_path_def rec_start_def Let_def)

lemma fetchOne_loop:
  "mkdir_err io = None \<Longrightarrow> \<not> resumes H d w url \<Longrightarrow>
   fetchOne H d io url fc w =
     (if ls_panicked (attempt_loop d (attempt_ios io) url (target_path H d url @ ''.part'')
                        (target_path H d url) (max 1 (retries d)) 1 (loop_start w))
      then (rec_start io url,
            (ls_world (attempt_loop d (attempt_ios io) url (target_path H d url @ ''.part'')
                         (target_path H d url) (max 1 (retries d)) 1 (loop_start w)))
              \<lparr>panicked := True\<rparr>)
      else finish_fetch H d io url fc (rec_start io url) (sanitizeName H url)
             (target_path H d url)
             (attempt_loop d (attempt_ios io) url (target_path H d url @ ''.part'')
                (target_path H d url) (max 1 (retries d)) 1 (loop_start w)))"
  by (auto simp: fetchOne_def resumes_def target_path_def rec_start_def loop_start_def Let_def)

lemma fetchOne_download:
  "mkdir_err io = None \<Longrightarrow> \<not> resumes H d w url \<Longrightarrow>
   \<not> ls_panicked (attempt_loop d (attempt_ios io) url (target_path H d url @ ''.part'')
                    (target_path H d url) (max 1 (retries d)) 1 (loop_start w)) \<Longrightarrow>
   fetchOne H d io url fc w =
     finish_fetch H d io url fc (rec_start io url) (sanitizeName H url) (target_path H d url)
       (attempt_loop d (attempt_ios io) url (target_path H d url @ ''.part'')
          (target_path H d url) (max 1 (retries d)) 1 (loop_start w))"
  by (simp add: fetchOne_loop)

lemma fetchOne_panics:
  "mkdir_err io = None \<Longrightarrow> \<not> resumes H d w url \<Longrightarrow>
   ls_panicked (attempt_loop d (attempt_ios io) url (target_path H d url @ ''.part'')
                  (target_path H d url) (max 1 (retries d)) 1 (loop_start w)) \<Longrightarrow>
   fetchOne H d io url fc w =
     (rec_start io url,
      (ls_world (attempt_loop d (attempt_ios io) url (target_path H d url @ ''.part'')
                   (target_path H d url) (max 1 (retries d)) 1 (loop_start w)))
        \<lparr>panicked := True\<rparr>)"
  by (simp add: fetchOne_loop)

lemma ls_panicked_loop_start [simp]: "\<not> ls_panicked (loop_start w)"
  by (simp add: loop_start_def)

lemma attempt_body_panicked [simp]:
  "ls_panicked (snd (attempt_body d io url tmp p attempts attempt st)) = ls_panicked st"
  by (simp add: attempt_body_def after_attempt_def remove_file_def write_file_def
      log_request_def Let_def split: option.splits http_result.splits)

lemma attempt_body_Panic:
  "fst (attempt_body d io url tmp p attempts attempt st) = Panic
     \<longleftrightarrow> tmp_create_err io = None \<and> (\<exists>err. do_result io = NoRequest err)"
  by (auto simp: attempt_body_def after_attempt_def Let_def
      split: option.splits http_result.splits)

lemma attempt_loop_break_panicked:
  "attempt \<le> attempts \<Longrightarrow> attempt_body d (ios attempt) url tmp p attempts attempt st = (Break, st')
   \<Longrightarrow> ls_panicked (attempt_loop d ios url tmp p attempts attempt st) = ls_panicked st"
  using attempt_body_panicked[of d "ios attempt" url tmp p attempts attempt st]
  by (subst attempt_loop.simps) simp

lemma finish_fetch_files:
  "files (snd (finish_fetch H d io url fc r nm p st)) = files (ls_world st)"
  by (simp add: finish_fetch_def Let_def incOK_def incErr_def split: option.splits prod.splits)

lemma finish_fetch_requests:
  "requests (snd (finish_fetch H d io url fc r nm p st)) = requests (ls_world st)"
  by (simp add: finish_fetch_def Let_def incOK_def incErr_def split: option.splits prod.splits)

lemma finish_fetch_sleeps:
  "sleeps (snd (finish_fetch H d io url fc r nm p st)) = sleeps (ls_world st)"
  by (simp add: finish_fetch_def Let_def incOK_def incErr_def split: option.splits prod.splits)

lemma finish_fetch_Retries:
  "Retries (fst (finish_fetch H d io url fc r nm p st)) = max 0 (ls_attemptCnt st - 1)"
  by (simp add: finish_fetch_def Let_def split: option.splits prod.splits)

lemma finish_fetch_URL:
  "URL (fst (finish_fetch H d io url fc r nm p st)) = URL r"
  by (simp add: finish_fetch_def Let_def split: option.splits prod.splits)

lemma finish_fetch_failed:
  "ls_lastErr st = Some err \<Longrightarrow>
   fst (finish_fetch H d io url fc r nm p st) =
     r\<lparr>Retries := max 0 (ls_attemptCnt st - 1), Error := err_text err, Status := ''error''\<rparr>"
  by (simp add: finish_fetch_def Let_def)

lemma verifyFile_True:
  "fst (verifyFile H d w p url) \<Longrightarrow>
   \<exists>content. files w p = Some content \<and> snd (verifyFile H d w p url) = H content
     \<and> (\<forall>want. checksums d url = Some want \<and> want \<noteq> [] \<longrightarrow> EqualFold want (H content))"
  by (auto simp: verifyFile_def Let_def split: option.splits if_splits)

lemma finish_fetch_OK:
  assumes "OK (fst (finish_fetch H d io url fc r nm p st))" "\<not> OK r"
  shows "fst (verifyFile H d (ls_world st) p url)
         \<and> Path (fst (finish_fetch H d io url fc r nm p st)) = p
         \<and> SHA256 (fst (finish_fetch H d io url fc r nm p st)) = snd (verifyFile H d (ls_world st) p url)
         \<and> Status (fst (finish_fetch H d io url fc r nm p st)) = ''ok''"
  using assms
  by (auto simp: finish_fetch_def Let_def split: option.splits prod.splits if_splits)

section \<open>The retry loop when every attempt fails retryably\<close>

lemma attempt_body_cnt:
  "ls_attemptCnt (snd (attempt_body d io url tmp p attempts attempt st)) = attempt"
  by (simp add: attempt_body_def after_attempt_def remove_file_def write_file_def log_request_def Let_def
      split: option.splits http_result.splits)

lemma attempt_body_retryable:
  assumes "retryable_failure io"
  shows "\<exists>st'. attempt_body d io url tmp p attempts attempt st = (Continue, st')
           \<and> ls_attemptCnt st' = attempt \<and> ls_lastErr st' \<noteq> None
           \<and> requests (ls_world st') = requests (ls_world st) @ [url]
           \<and> ls_panicked st' = ls_panicked st"
  using assms
  by (auto simp: retryable_failure_def retryable_status_def attempt_body_def after_attempt_def
      remove_file_def write_file_def log_request_def Let_def split: option.splits http_result.splits if_splits)

lemma attempt_loop_last:
  "attempt_loop d ios url tmp p attempts (attempts + 1) st = st"
  by (simp add: attempt_loop.simps)

lemma attempt_loop_all_retryable:
  assumes "\<forall>k. attempt \<le> k \<and> k \<le> attempts \<longrightarrow> retryable_failure (ios k)"
      and "attempt \<le> attempts" and "m = nat (attempts - attempt)"
  shows "ls_attemptCnt (attempt_loop d ios url tmp p attempts attempt st) = attempts
         \<and> ls_lastErr (attempt_loop d ios url tmp p attempts attempt st) \<noteq> None
         \<and> requests (ls_world (attempt_loop d ios url tmp p attempts attempt st))
             = requests (ls_world st) @ replicate (Suc m) url
         \<and> ls_panicked (attempt_loop d ios url tmp p attempts attempt st) = ls_panicked st"
  using assms
proof (induction m arbitrary: attempt st)
  case 0
  then have eq: "attempt = attempts" by simp
  from 0 eq have "retryable_failure (ios attempts)" by simp
  from attempt_body_retryable[OF this, of d url tmp p attempts attempts st]
  obtain st' where st': "attempt_body d (ios attempts) url tmp p attempts attempts st = (Continue, st')"
    "ls_attemptCnt st' = attempts" "ls_lastErr st' \<noteq> None"
    "requests (ls_world st') = requests (ls_world st) @ [url]"
    "ls_panicked st' = ls_panicked st" by blast
  have "attempt_loop d ios url tmp p attempts attempts st = st'"
    by (subst attempt_loop.simps) (simp add: st'(1) attempt_loop_last)
  with st' eq show ?case by simp
next
  case (Suc m)
  then have lt: "attempt < attempts" by simp
  from Suc.prems have "retryable_failure (ios attempt)" by simp
  from attempt_body_retryable[OF this, of d url tmp p attempts attempt st]
  obtain st' where st': "attempt_body d (ios attempt) url tmp p attempts attempt st = (Continue, st')"
    "requests (ls_world st') = requests (ls_world st) @ [url]"
    "ls_panicked st' = ls_panicked st" by blast
  have step: "attempt_loop d ios url tmp p attempts attempt st
              = attempt_loop d ios url tmp p attempts (attempt + 1) st'"
    using lt by (subst attempt_loop.simps) (simp add: st'(1))
  have "\<forall>k. attempt + 1 \<le> k \<and> k \<le> attempts \<longrightarrow> retryable_failure (ios k)"
    using Suc.prems(1) by simp
  moreover have "attempt + 1 \<le> attempts" using lt by simp
  moreover have "m = nat (attempts - (attempt + 1))" using Suc.prems(3) by simp
  ultimately have IH: "ls_attemptCnt (attempt_loop d ios url tmp p attempts (attempt + 1) st') = attempts
         \<and> ls_lastErr (attempt_loop d ios url tmp p attempts (attempt + 1) st') \<noteq> None
         \<and> requests (ls_world (attempt_loop d ios url tmp p attempts (attempt + 1) st'))
             = requests (ls_world st') @ replicate (Suc m) url
         \<and> ls_panicked (attempt_loop d ios url tmp p attempts (attempt + 1) st') = ls_panicked st'"
    by (rule Suc.IH)
  show ?case
    unfolding step using IH st'(2,3) by (simp add: replicate_append_same)
qed

lemma target_path_demo:
  "target_path H (NewDownloader ''out'' c sums) demo_url = ''out/s/er/serde-1.0.0.crate''"
  by (simp add: target_path_def demo_url_def NewDownloader_def crateNameFromURL_def
      sanitizeName_def crateDirFor_def filepath_Join_def filepath_Clean_def clean_elem_def
      HasPrefix_def slice_def TrimSpace_def isSpace_def Let_def)

lemma target_path_SetRetries [simp]:
  "target_path H (SetRetries k d) url = target_path H d url"
  by (simp add: target_path_def SetRetries_def)

lemma not_resumes_absent:
  "files w (target_path H d url) = None \<Longrightarrow> \<not> resumes H d w url"
  by (simp add: resumes_def)

lemma fetchOne_retryable_result:
  assumes "mkdir_err io = None" and "\<not> resumes H d w url"
      and "\<forall>k. 1 \<le> k \<and> k \<le> max 1 (retries d) \<longrightarrow> retryable_failure (attempt_ios io k)"
  shows "requests (snd (fetchOne H d io url fc w))
           = requests w @ replicate (nat (max 1 (retries d))) url"
    and "Retries (fst (fetchOne H d io url fc w)) = max 1 (retries d) - 1"
    and "\<not> OK (fst (fetchOne H d io url fc w))"
    and "Status (fst (fetchOne H d io url fc w)) = ''error''"
proof -
  let ?p = "target_path H d url"
  let ?st = "attempt_loop d (attempt_ios io) url (?p @ ''.part'') ?p (max 1 (retries d)) 1
               (loop_start w)"
  have m: "nat (max 1 (retries d) - 1) = nat (max 1 (retries d) - 1)" by simp
  from attempt_loop_all_retryable[OF assms(3) _ m, of d url "?p @ ''.part''" ?p "loop_start w"]
  have loop: "ls_attemptCnt ?st = max 1 (retries d)" "ls_lastErr ?st \<noteq> None"
    "requests (ls_world ?st) = requests w @ replicate (Suc (nat (max 1 (retries d) - 1))) url"
    "\<not> ls_panicked ?st"
    by (simp_all add: loop_start_def)
  have suc: "Suc (nat (max 1 (retries d) - 1)) = nat (max 1 (retries d))" by simp
  have f: "fetchOne H d io url fc w =
             finish_fetch H d io url fc (rec_start io url) (sanitizeName H url) ?p ?st"
    by (rule fetchOne_download[OF assms(1,2) loop(4)])
  show "requests (snd (fetchOne H d io url fc w))
           = requests w @ replicate (nat (max 1 (retries d))) url"
    by (simp only: f finish_fetch_requests loop(3) suc)
  show "Retries (fst (fetchOne H d io url fc w)) = max 1 (retries d) - 1"
    by (simp add: f finish_fetch_Retries loop(1))
  from loop(2) obtain err where e: "ls_lastErr ?st = Some err" by auto
  show "\<not> OK (fst (fetchOne H d io url fc w))"
    by (simp add: f finish_fetch_failed[OF e] rec_start_def)
  show "Status (fst (fetchOne H d io url fc w)) = ''error''"
    by (simp add: f finish_fetch_failed[OF e])
qed

lemma retryable_500: "retryable_failure (answer (Response 500 body None))"
  by (simp add: retryable_failure_def retryable_status_def answer_def)

text \<open>
  Claim C7, as amended. When every attempt for a URL fails retryably (for example the
  server answers 500 each time), \<open>fetchOne\<close> makes exactly \<open>max(1, retries)\<close> attempts,
  each with one HTTP request, and the Record's \<open>retries\<close> field is \<open>max(1, retries) - 1\<close>;
  for a configured number of at least 1 (the default is 6) that is the configured number
  of attempts and the configured number minus 1. The Record has \<open>ok = false\<close>.
\<close>

theorem fetchOne_exhausts_retries:
  assumes "mkdir_err io = None" and "\<not> resumes H d w url"
      and "\<forall>k. 1 \<le> k \<and> k \<le> max 1 (retries d) \<longrightarrow> retryable_failure (attempt_ios io k)"
  shows "requests (snd (fetchOne H d io url fc w))
           = requests w @ replicate (nat (max 1 (retries d))) url
         \<and> Retries (fst (fetchOne H d io url fc w)) = max 1 (retries d) - 1
         \<and> (1 \<le> retries d \<longrightarrow>
              int (length (requests (snd (fetchOne H d io url fc w)))) - int (length (requests w))
                = retries d
              \<and> Retries (fst (fetchOne H d io url fc w)) = retries d - 1)
         \<and> \<not> OK (fst (fetchOne H d io url fc w))"
  using fetchOne_retryable_result[OF assms, of fc] by simp

theorem fetchOne_exhausts_retries_witness:
  "mkdir_err (always (Response 500 [] None)) = None
   \<and> \<not> resumes demo_digest (NewDownloader ''out'' 4 Map.empty) (world_with Map.empty) demo_url
   \<and> retryable_failure (answer (Response 500 [] None))
   \<and> length (requests (snd (fetchOne demo_digest (NewDownloader ''out'' 4 Map.empty)
         (always (Response 500 [] None)) demo_url False (world_with Map.empty)))) = 6
   \<and> Retries (fst (fetchOne demo_digest (NewDownloader ''out'' 4 Map.empty)
         (always (Response 500 [] None)) demo_url False (world_with Map.empty))) = 5"
proof -
  let ?d = "NewDownloader ''out'' 4 Map.empty"
  let ?r = "fetchOne demo_digest ?d (always (Response 500 [] None)) demo_url False
              (world_with Map.empty)"
  have h1: "mkdir_err (always (Response 500 [] None)) = None"
    by (simp add: always_def)
  have h2: "\<not> resumes demo_digest ?d (world_with Map.empty) demo_url"
    by (simp add: resumes_def world_with_def)
  have h3: "\<forall>k. 1 \<le> k \<and> k \<le> max 1 (retries ?d) \<longrightarrow>
         retryable_failure (attempt_ios (always (Response 500 [] None)) k)"
    by (simp add: always_def retryable_500)
  have six: "retries ?d = 6" by (simp add: NewDownloader_def)
  have nil: "requests (world_with Map.empty) = []" by (simp add: world_with_def)
  from fetchOne_exhausts_retries[OF h1 h2 h3, of False]
  have "requests (snd ?r) = requests (world_with Map.empty) @ replicate (nat (max 1 (retries ?d))) demo_url"
    and "Retries (fst ?r) = max 1 (retries ?d) - 1" by blast+
  then have c: "length (requests (snd ?r)) = 6" "Retries (fst ?r) = 5"
    by (simp_all only: six nil) simp_all
  note retryable_500[of "[]"]
  show ?thesis by (intro conjI; fact)
qed

text \<open>
  Claim C7 as stated fails for a configured number of 0 (\<open>-retries 0\<close>): the guard
  \<open>max(1, d.retries)\<close> makes one attempt, not none, and the Record's \<open>retries\<close> field is 0,
  not \<open>0 - 1\<close>.
\<close>

theorem fetchOne_zero_retries_counterexample:
  "retries (SetRetries 0 (NewDownloader ''out'' 4 Map.empty)) = 0
   \<and> requests (snd (fetchOne demo_digest (SetRetries 0 (NewDownloader ''out'' 4 Map.empty))
         (always (Response 500 [] None)) demo_url False (world_with Map.empty))) = [demo_url]
   \<and> Retries (fst (fetchOne demo_digest (SetRetries 0 (NewDownloader ''out'' 4 Map.empty))
         (always (Response 500 [] None)) demo_url False (world_with Map.empty))) = 0"
proof -
  let ?d = "SetRetries 0 (NewDownloader ''out'' 4 Map.empty)"
  have h1: "mkdir_err (always (Response 500 [] None)) = None"
    by (simp add: always_def)
  have h2: "\<not> resumes demo_digest ?d (world_with Map.empty) demo_url"
    by (simp add: resumes_def world_with_def)
  have h3: "\<forall>k. 1 \<le> k \<and> k \<le> max 1 (retries ?d) \<longrightarrow>
         retryable_failure (attempt_ios (always (Response 500 [] None)) k)"
    by (simp add: always_def retryable_500)
  have zero: "retries ?d = 0" by (simp add: NewDownloader_def SetRetries_def)
  have nil: "requests (world_with Map.empty) = []" by (simp add: world_with_def)
  from fetchOne_retryable_result(1,2)[OF h1 h2 h3, of False]
  have c: "requests (snd (fetchOne demo_digest ?d (always (Response 500 [] None)) demo_url False
          (world_with Map.empty))) = [demo_url]"
    "Retries (fst (fetchOne demo_digest ?d (always (Response 500 [] None)) demo_url False
          (world_with Map.empty))) = 0"
    by (simp_all only: zero nil) simp_all
  show ?thesis by (intro conjI; fact)
qed

section \<open>HTTP status handling\<close>

lemma attempt_loop_break:
  "attempt \<le> attempts \<Longrightarrow> attempt_body d (ios attempt) url tmp p attempts attempt st = (Break, st')
   \<Longrightarrow> attempt_loop d ios url tmp p attempts attempt st = st'"
  by (subst attempt_loop.simps) simp

lemma attempt_body_retryable_status:
  assumes "tmp_create_err aio = None" "do_result aio = Response code body cerr"
      and "code \<noteq> 200" "retryable_status code"
  shows "fst (attempt_body d aio url tmp p attempts attempt st) = Continue"
    and "files (ls_world (snd (attempt_body d aio url tmp p attempts attempt st))) tmp = None"
    and "sleeps (ls_world (snd (attempt_body d aio url tmp p attempts attempt st)))
           = sleeps (ls_world st)
             @ (if attempt < attempts then [sleep_for d (unix_nano aio) attempt] else [])"
  using assms
  by (simp_all add: attempt_body_def after_attempt_def remove_file_def write_file_def log_request_def
      retryable_status_def Let_def)

lemma attempt_body_final_status:
  assumes "tmp_create_err aio = None" "do_result aio = Response code body cerr"
      and "code \<noteq> 200" "\<not> retryable_status code"
  shows "attempt_body d aio url tmp p attempts attempt st =
           (Break, st\<lparr>ls_attemptCnt := attempt,
                      ls_lastErr := Some (GoError Plain (''HTTP '' @ fmt_d code)),
                      ls_world := (ls_world st)\<lparr>files := (files (ls_world st))(tmp := None),
                                                requests := requests (ls_world st) @ [url]\<rparr>\<rparr>)"
  using assms
  by (simp add: attempt_body_def after_attempt_def remove_file_def write_file_def log_request_def
      retryable_status_def Let_def)

lemma fetchOne_final_status:
  assumes "mkdir_err io = None" and "\<not> resumes H d w url"
      and "tmp_create_err (attempt_ios io 1) = None"
      and "do_result (attempt_ios io 1) = Response code body cerr"
      and "code \<noteq> 200" "\<not> retryable_status code"
  shows "requests (snd (fetchOne H d io url fc w)) = requests w @ [url]"
    and "sleeps (snd (fetchOne H d io url fc w)) = sleeps w"
    and "fst (fetchOne H d io url fc w) =
           (rec_start io url)\<lparr>Retries := 0, Error := ''HTTP '' @ fmt_d code, Status := ''error''\<rparr>"
proof -
  let ?p = "target_path H d url"
  let ?st' = "(loop_start w)\<lparr>ls_attemptCnt := 1,
                      ls_lastErr := Some (GoError Plain (''HTTP '' @ fmt_d code)),
                      ls_world := (ls_world (loop_start w))
                         \<lparr>files := (files (ls_world (loop_start w)))(?p @ ''.part'' := None),
                          requests := requests (ls_world (loop_start w)) @ [url]\<rparr>\<rparr>"
  have "attempt_loop d (attempt_ios io) url (?p @ ''.part'') ?p (max 1 (retries d)) 1 (loop_start w)
          = ?st'"
    by (rule attempt_loop_break) (simp_all add: attempt_body_final_status[OF assms(3-6)])
  then have f: "fetchOne H d io url fc w =
             finish_fetch H d io url fc (rec_start io url) (sanitizeName H url) ?p ?st'"
    by (simp add: fetchOne_loop[OF assms(1,2)])
  show "requests (snd (fetchOne H d io url fc w)) = requests w @ [url]"
    by (simp add: f finish_fetch_requests loop_start_def)
  show "sleeps (snd (fetchOne H d io url fc w)) = sleeps w"
    by (simp add: f finish_fetch_sleeps loop_start_def)
  show "fst (fetchOne H d io url fc w) =
           (rec_start io url)\<lparr>Retries := 0, Error := ''HTTP '' @ fmt_d code, Status := ''error''\<rparr>"
  proof -
    have e: "ls_lastErr ?st' = Some (GoError Plain (''HTTP '' @ fmt_d code))" by simp
    show ?thesis
      by (simp only: f finish_fetch_failed[OF e]) simp
  qed
qed

text \<open>
  Claim C6. In one attempt of \<open>fetchOne\<close>, a response with status 408, 425, 429 or any
  5xx is retryable: the temporary file is deleted, the loop goes on and, unless this was
  the last attempt, a backoff sleep is made. Any other 4xx status deletes the temporary
  file and leaves the loop at once, without a sleep. In particular a URL that always
  answers 404 gets exactly one request, and its Record has \<open>ok = false\<close>, \<open>retries = 0\<close>.
\<close>

theorem fetchOne_status_handling:
  "(tmp_create_err aio = None \<and> do_result aio = Response code body cerr \<longrightarrow>
      ((code = 408 \<or> code = 425 \<or> code = 429 \<or> (500 \<le> code \<and> code \<le> 599)) \<longrightarrow>
          fst (attempt_body d aio url tmp p attempts attempt st) = Continue
          \<and> files (ls_world (snd (attempt_body d aio url tmp p attempts attempt st))) tmp = None
          \<and> (attempt < attempts \<longrightarrow>
               sleeps (ls_world (snd (attempt_body d aio url tmp p attempts attempt st)))
                 = sleeps (ls_world st) @ [sleep_for d (unix_nano aio) attempt]))
      \<and> ((400 \<le> code \<and> code \<le> 499 \<and> code \<noteq> 408 \<and> code \<noteq> 425 \<and> code \<noteq> 429) \<longrightarrow>
          fst (attempt_body d aio url tmp p attempts attempt st) = Break
          \<and> files (ls_world (snd (attempt_body d aio url tmp p attempts attempt st))) tmp = None
          \<and> sleeps (ls_world (snd (attempt_body d aio url tmp p attempts attempt st)))
               = sleeps (ls_world st)))
   \<and> (mkdir_err io = None \<and> \<not> resumes H d w url
        \<and> (\<forall>k. tmp_create_err (attempt_ios io k) = None
                \<and> (\<exists>b e. do_result (attempt_ios io k) = Response 404 b e)) \<longrightarrow>
          requests (snd (fetchOne H d io url fc w)) = requests w @ [url]
          \<and> sleeps (snd (fetchOne H d io url fc w)) = sleeps w
          \<and> \<not> OK (fst (fetchOne H d io url fc w))
          \<and> Retries (fst (fetchOne H d io url fc w)) = 0
          \<and> Status (fst (fetchOne H d io url fc w)) = ''error'')"
proof (intro conjI impI)
  assume a: "tmp_create_err aio = None \<and> do_result aio = Response code body cerr"
    and c: "code = 408 \<or> code = 425 \<or> code = 429 \<or> (500 \<le> code \<and> code \<le> 599)"
  from c have r: "code \<noteq> 200" "retryable_status code" by (auto simp: retryable_status_def)
  note L = attempt_body_retryable_status[OF conjunct1[OF a] conjunct2[OF a] r, of d url tmp p attempts attempt st]
  show "fst (attempt_body d aio url tmp p attempts attempt st) = Continue" by (rule L(1))
  show "files (ls_world (snd (attempt_body d aio url tmp p attempts attempt st))) tmp = None"
    by (rule L(2))
  assume "attempt < attempts"
  then show "sleeps (ls_world (snd (attempt_body d aio url tmp p attempts attempt st)))
                 = sleeps (ls_world st) @ [sleep_for d (unix_nano aio) attempt]"
    by (simp add: L(3))
next
  assume a: "tmp_create_err aio = None \<and> do_result aio = Response code body cerr"
    and c: "400 \<le> code \<and> code \<le> 499 \<and> code \<noteq> 408 \<and> code \<noteq> 425 \<and> code \<noteq> 429"
  from c have r: "code \<noteq> 200" "\<not> retryable_status code" by (auto simp: retryable_status_def)
  note L = attempt_body_final_status[OF conjunct1[OF a] conjunct2[OF a] r, of d url tmp p attempts attempt st]
  show "fst (attempt_body d aio url tmp p attempts attempt st) = Break" by (simp add: L)
  show "files (ls_world (snd (attempt_body d aio url tmp p attempts attempt st))) tmp = None"
    by (simp add: L)
  show "sleeps (ls_world (snd (attempt_body d aio url tmp p attempts attempt st)))
               = sleeps (ls_world st)" by (simp add: L)
next
  assume a: "mkdir_err io = None \<and> \<not> resumes H d w url
        \<and> (\<forall>k. tmp_create_err (attempt_ios io k) = None
                \<and> (\<exists>b e. do_result (attempt_ios io k) = Response 404 b e))"
  then obtain b e where h: "mkdir_err io = None" "\<not> resumes H d w url"
    "tmp_create_err (attempt_ios io 1) = None" "do_result (attempt_ios io 1) = Response 404 b e"
    by blast
  have r: "(404::int) \<noteq> 200" "\<not> retryable_status 404" by (simp_all add: retryable_status_def)
  note L = fetchOne_final_status[OF h r, of fc]
  show "requests (snd (fetchOne H d io url fc w)) = requests w @ [url]" by (rule L(1))
  show "sleeps (snd (fetchOne H d io url fc w)) = sleeps w" by (rule L(2))
  show "\<not> OK (fst (fetchOne H d io url fc w))" by (simp add: L(3) rec_start_def)
  show "Retries (fst (fetchOne H d io url fc w)) = 0" by (simp add: L(3))
  show "Status (fst (fetchOne H d io url fc w)) = ''error''" by (simp add: L(3))
qed

theorem fetchOne_status_handling_witness:
  "fst (attempt_body (NewDownloader ''out'' 4 Map.empty) (answer (Response 503 [] None)) demo_url
          ''t.part'' ''t'' 6 1 (loop_start (world_with Map.empty))) = Continue
   \<and> sleeps (ls_world (snd (attempt_body (NewDownloader ''out'' 4 Map.empty)
          (answer (Response 503 [] None)) demo_url ''t.part'' ''t'' 6 1
          (loop_start (world_with Map.empty))))) = [250000000]
   \<and> fst (attempt_body (NewDownloader ''out'' 4 Map.empty) (answer (Response 404 [] None)) demo_url
          ''t.part'' ''t'' 6 1 (loop_start (world_with Map.empty))) = Break
   \<and> requests (snd (fetchOne demo_digest (NewDownloader ''out'' 4 Map.empty)
          (always (Response 404 [] None)) demo_url False (world_with Map.empty))) = [demo_url]
   \<and> \<not> OK (fst (fetchOne demo_digest (NewDownloader ''out'' 4 Map.empty)
          (always (Response 404 [] None)) demo_url False (world_with Map.empty)))
   \<and> Retries (fst (fetchOne demo_digest (NewDownloader ''out'' 4 Map.empty)
          (always (Response 404 [] None)) demo_url False (world_with Map.empty))) = 0"
proof -
  let ?d = "NewDownloader ''out'' 4 Map.empty"
  let ?st = "loop_start (world_with Map.empty)"
  have a503: "tmp_create_err (answer (Response 503 [] None)) = None
              \<and> do_result (answer (Response 503 [] None)) = Response 503 [] None"
    by (simp add: answer_def)
  have a404: "tmp_create_err (answer (Response 404 [] None)) = None
              \<and> do_result (answer (Response 404 [] None)) = Response 404 [] None"
    by (simp add: answer_def)
  have h: "mkdir_err (always (Response 404 [] None)) = None
           \<and> \<not> resumes demo_digest ?d (world_with Map.empty) demo_url
           \<and> (\<forall>k. tmp_create_err (attempt_ios (always (Response 404 [] None)) k) = None
                \<and> (\<exists>b e. do_result (attempt_ios (always (Response 404 [] None)) k) = Response 404 b e))"
    by (simp add: always_def answer_def resumes_def world_with_def)
  have sl: "sleep_for ?d (unix_nano (answer (Response 503 [] None))) 1 = 250000000"
    by (simp add: sleep_for_def backoff_def jitter_num_def trunc_div_def NewDownloader_def answer_def)
  have nil: "sleeps (ls_world ?st) = []" "requests (world_with Map.empty) = []"
    by (simp_all add: loop_start_def world_with_def)
  from fetchOne_status_handling[where aio = "answer (Response 503 [] None)" and code = 503
      and body = "[]" and cerr = None and d = ?d and url = demo_url and tmp = "''t.part''"
      and p = "''t''" and attempts = 6 and attempt = 1 and st = ?st] a503
  have c1: "fst (attempt_body ?d (answer (Response 503 [] None)) demo_url ''t.part'' ''t'' 6 1 ?st)
              = Continue"
    and c2: "sleeps (ls_world (snd (attempt_body ?d (answer (Response 503 [] None)) demo_url
              ''t.part'' ''t'' 6 1 ?st))) = [250000000]"
    by (simp_all add: sl nil)
  from fetchOne_status_handling[where aio = "answer (Response 404 [] None)" and code = 404
      and body = "[]" and cerr = None and d = ?d and url = demo_url and tmp = "''t.part''"
      and p = "''t''" and attempts = 6 and attempt = 1 and st = ?st] a404
  have c3: "fst (attempt_body ?d (answer (Response 404 [] None)) demo_url ''t.part'' ''t'' 6 1 ?st)
              = Break"
    by simp
  from fetchOne_status_handling[where io = "always (Response 404 [] None)" and H = demo_digest
      and d = ?d and w = "world_with Map.empty" and url = demo_url and fc = False] h
  have c4: "requests (snd (fetchOne demo_digest ?d (always (Response 404 [] None)) demo_url False
              (world_with Map.empty))) = [demo_url]"
    and c5: "\<not> OK (fst (fetchOne demo_digest ?d (always (Response 404 [] None)) demo_url False
              (world_with Map.empty)))"
    and c6: "Retries (fst (fetchOne demo_digest ?d (always (Response 404 [] None)) demo_url False
              (world_with Map.empty))) = 0"
    by (simp_all add: nil)
  show ?thesis by (intro conjI; fact)
qed

section \<open>The resume check and the Record of a success\<close>

lemma resumes_files:
  "resumes H d w url \<Longrightarrow>
   \<exists>content. files w (target_path H d url) = Some content
     \<and> (\<forall>want. checksums d url = Some want \<and> want \<noteq> [] \<longrightarrow> EqualFold want (H content))"
  using verifyFile_True[of H d w "target_path H d url" url] by (auto simp: resumes_def)

lemma resumes_matching:
  "files w (target_path H d url) = Some content \<Longrightarrow> checksums d url = Some want
   \<Longrightarrow> EqualFold want (H content) \<Longrightarrow> resumes H d w url"
  by (simp add: resumes_def verifyFile_def Let_def)

lemma demo_resume_facts:
  "files demo_resume_world (target_path demo_digest demo_downloader demo_url) = Some ''abc''"
  "checksums demo_downloader demo_url = Some ''SHA256:ABC''"
  "EqualFold ''SHA256:ABC'' (demo_digest ''abc'')"
proof -
  have t: "target_path demo_digest demo_downloader demo_url = ''out/s/er/serde-1.0.0.crate''"
    by (simp only: demo_downloader_def target_path_demo)
  show "files demo_resume_world (target_path demo_digest demo_downloader demo_url) = Some ''abc''"
    by (simp only: t) (simp add: demo_resume_world_def world_with_def)
  show "checksums demo_downloader demo_url = Some ''SHA256:ABC''"
    by (simp add: demo_downloader_def NewDownloader_def)
  show "EqualFold ''SHA256:ABC'' (demo_digest ''abc'')"
    by (simp add: EqualFold_def demo_digest_def lower_byte_def)
qed

lemma demo_resume_record:
  "fetchOne demo_digest demo_downloader (always (Response 200 ''abc'' None)) demo_url False
     demo_resume_world =
   ((rec_start (always (Response 200 ''abc'' None)) demo_url)
      \<lparr>Path := ''out/s/er/serde-1.0.0.crate'',
       FinishedAt := finished_at (always (Response 200 ''abc'' None)),
       OK := True, Status := ''ok''\<rparr>, incOK demo_resume_world)"
proof -
  have m: "mkdir_err (always (Response 200 ''abc'' None)) = None" by (simp add: always_def)
  have r: "resumes demo_digest demo_downloader demo_resume_world demo_url"
    by (rule resumes_matching[OF demo_resume_facts])
  have t: "target_path demo_digest demo_downloader demo_url = ''out/s/er/serde-1.0.0.crate''"
    by (simp add: demo_downloader_def target_path_demo)
  show ?thesis by (simp only: fetchOne_resume[OF m r] t)
qed

lemma attempt_body_success:
  assumes "tmp_create_err aio = None" "do_result aio = Response 200 body None"
      and "rename_err aio = None"
  shows "attempt_body d aio url tmp p attempts attempt st =
           (Break, st\<lparr>ls_attemptCnt := attempt, ls_n := int (length body), ls_lastErr := None,
                      ls_world := (ls_world st)
                        \<lparr>files := ((files (ls_world st))(p \<mapsto> body))(tmp := None),
                         requests := requests (ls_world st) @ [url]\<rparr>\<rparr>)"
  using assms
  by (simp add: attempt_body_def remove_file_def write_file_def log_request_def Let_def fun_upd_twist)

lemma fetchOne_first_try:
  assumes "mkdir_err io = None" and "\<not> resumes H d w url"
      and "tmp_create_err (attempt_ios io 1) = None"
      and "do_result (attempt_ios io 1) = Response 200 body None"
      and "rename_err (attempt_ios io 1) = None"
  shows "fetchOne H d io url fc w =
           finish_fetch H d io url fc (rec_start io url) (sanitizeName H url) (target_path H d url)
             ((loop_start w)\<lparr>ls_attemptCnt := 1, ls_n := int (length body), ls_lastErr := None,
                ls_world := w\<lparr>files := ((files w)(target_path H d url \<mapsto> body))
                                           (target_path H d url @ ''.part'' := None),
                               requests := requests w @ [url]\<rparr>\<rparr>)"
proof -
  let ?p = "target_path H d url"
  have "attempt_loop d (attempt_ios io) url (?p @ ''.part'') ?p (max 1 (retries d)) 1 (loop_start w)
          = (loop_start w)\<lparr>ls_attemptCnt := 1, ls_n := int (length body), ls_lastErr := None,
                ls_world := w\<lparr>files := ((files w)(?p \<mapsto> body))(?p @ ''.part'' := None),
                               requests := requests w @ [url]\<rparr>\<rparr>"
    by (rule attempt_loop_break)
       (simp_all add: attempt_body_success[OF assms(3-5)] loop_start_def)
  then show ?thesis by (simp add: fetchOne_loop[OF assms(1,2)])
qed

lemma demo_not_resumes:
  "\<not> resumes demo_digest demo_downloader (world_with Map.empty) demo_url"
  by (simp add: resumes_def world_with_def)

lemma demo_download_ok:
  "OK (fst (fetchOne demo_digest demo_downloader (always (Response 200 ''abc'' None)) demo_url
              False (world_with Map.empty)))"
proof -
  have m: "mkdir_err (always (Response 200 ''abc'' None)) = None" by (simp add: always_def)
  have a: "tmp_create_err (attempt_ios (always (Response 200 ''abc'' None)) 1) = None"
    "do_result (attempt_ios (always (Response 200 ''abc'' None)) 1) = Response 200 ''abc'' None"
    "rename_err (attempt_ios (always (Response 200 ''abc'' None)) 1) = None"
    by (simp_all add: always_def answer_def)
  have t: "target_path demo_digest demo_downloader demo_url = ''out/s/er/serde-1.0.0.crate''"
    by (simp only: demo_downloader_def target_path_demo)
  show ?thesis
    by (simp only: fetchOne_first_try[OF m demo_not_resumes a] t)
       (simp add: finish_fetch_def verifyFile_def demo_downloader_def NewDownloader_def
          world_with_def loop_start_def rec_start_def incOK_def EqualFold_def demo_digest_def
          lower_byte_def Let_def)
qed

text \<open>
  Claim C3, as amended. When the target file is already at the resolved path and its
  digest matches the expected hash known for the URL, \<open>fetchOne\<close> issues no HTTP
  request, leaves the files as they are, and returns one Record with \<open>ok = true\<close> and
  \<open>status = "ok"\<close>.
\<close>

theorem fetchOne_resume_skips_download:
  assumes "mkdir_err io = None"
      and "files w (target_path H d url) = Some content"
      and "checksums d url = Some want" and "EqualFold want (H content)"
  shows "requests (snd (fetchOne H d io url fc w)) = requests w
         \<and> files (snd (fetchOne H d io url fc w)) = files w
         \<and> OK (fst (fetchOne H d io url fc w))
         \<and> Status (fst (fetchOne H d io url fc w)) = ''ok''
         \<and> Path (fst (fetchOne H d io url fc w)) = target_path H d url"
  using fetchOne_resume[OF assms(1) resumes_matching[OF assms(2-4)], of fc]
  by (simp add: incOK_def)

theorem fetchOne_resume_skips_download_witness:
  "files demo_resume_world (target_path demo_digest demo_downloader demo_url) = Some ''abc''
   \<and> checksums demo_downloader demo_url = Some ''SHA256:ABC''
   \<and> EqualFold ''SHA256:ABC'' (demo_digest ''abc'')
   \<and> requests (snd (fetchOne demo_digest demo_downloader (always (Response 200 ''abc'' None))
         demo_url False demo_resume_world)) = []
   \<and> OK (fst (fetchOne demo_digest demo_downloader (always (Response 200 ''abc'' None))
         demo_url False demo_resume_world))
   \<and> Status (fst (fetchOne demo_digest demo_downloader (always (Response 200 ''abc'' None))
         demo_url False demo_resume_world)) = ''ok''"
proof -
  have m: "mkdir_err (always (Response 200 ''abc'' None)) = None" by (simp add: always_def)
  have nil: "requests demo_resume_world = []" by (simp add: demo_resume_world_def world_with_def)
  from fetchOne_resume_skips_download[OF m demo_resume_facts, of False]
  have c: "requests (snd (fetchOne demo_digest demo_downloader (always (Response 200 ''abc'' None))
         demo_url False demo_resume_world)) = []"
    "OK (fst (fetchOne demo_digest demo_downloader (always (Response 200 ''abc'' None))
         demo_url False demo_resume_world))"
    "Status (fst (fetchOne demo_digest demo_downloader (always (Response 200 ''abc'' None))
         demo_url False demo_resume_world)) = ''ok''"
    by (simp_all only: nil) 
  show ?thesis by (intro conjI; fact c demo_resume_facts)
qed

text \<open>
  Claim C3 as stated fails: the Record of the resume path has \<open>status = "ok"\<close>, not
  \<open>"skipped"\<close>; no Record ever gets the status \<open>"skipped"\<close> (only the metric label does).
\<close>

theorem fetchOne_resume_status_counterexample:
  "files demo_resume_world (target_path demo_digest demo_downloader demo_url) = Some ''abc''
   \<and> checksums demo_downloader demo_url = Some ''SHA256:ABC''
   \<and> EqualFold ''SHA256:ABC'' (demo_digest ''abc'')
   \<and> Status (fst (fetchOne demo_digest demo_downloader (always (Response 200 ''abc'' None))
         demo_url False demo_resume_world)) \<noteq> ''skipped''"
proof -
  have "Status (fst (fetchOne demo_digest demo_downloader (always (Response 200 ''abc'' None))
         demo_url False demo_resume_world)) \<noteq> ''skipped''"
    by (simp only: demo_resume_record) simp
  with demo_resume_facts show ?thesis by (intro conjI)
qed

text \<open>
  What holds of every Record that \<open>fetchOne\<close> returns with \<open>ok = true\<close>: its status is
  \<open>"ok"\<close> and the file at its path exists; whenever a non-empty expected hash for the URL
  is in the checksum index, the digest of the file equals it up to ASCII case; and on
  the download path (the resume check did not accept an existing file) the \<open>sha256\<close>
  field is the digest of that file.
\<close>

lemma fetchOne_ok_record:
  assumes "OK (fst (fetchOne H d io url fc w))"
  shows "Status (fst (fetchOne H d io url fc w)) = ''ok''
         \<and> (\<exists>content.
               files (snd (fetchOne H d io url fc w)) (Path (fst (fetchOne H d io url fc w)))
                 = Some content
               \<and> (\<not> resumes H d w url \<longrightarrow>
                     SHA256 (fst (fetchOne H d io url fc w)) = H content)
               \<and> (\<forall>want. checksums d url = Some want \<and> want \<noteq> [] \<longrightarrow>
                     EqualFold want (H content)))"
proof (cases "mkdir_err io")
  case (Some err)
  with assms show ?thesis by (simp add: fetchOne_mkdir_fails rec_start_def)
next
  case None
  show ?thesis
  proof (cases "resumes H d w url")
    case True
    from resumes_files[OF True] obtain content where
      c: "files w (target_path H d url) = Some content"
         "\<forall>want. checksums d url = Some want \<and> want \<noteq> [] \<longrightarrow> EqualFold want (H content)"
      by blast
    show ?thesis
      using c True by (simp add: fetchOne_resume[OF None True] incOK_def rec_start_def)
  next
    case False
    let ?p = "target_path H d url"
    let ?st = "attempt_loop d (attempt_ios io) url (?p @ ''.part'') ?p (max 1 (retries d)) 1
                 (loop_start w)"
    let ?f = "finish_fetch H d io url fc (rec_start io url) (sanitizeName H url) ?p ?st"
    have np: "\<not> ls_panicked ?st"
    proof
      assume "ls_panicked ?st"
      from fetchOne_panics[OF None False this, of fc] assms show False
        by (simp add: rec_start_def)
    qed
    have f: "fetchOne H d io url fc w = ?f" by (rule fetchOne_download[OF None False np])
    from assms have ok: "OK (fst ?f)" by (simp only: f)
    have "\<not> OK (rec_start io url)" by (simp add: rec_start_def)
    from finish_fetch_OK[OF ok this]
    have v: "fst (verifyFile H d (ls_world ?st) ?p url)" and pth: "Path (fst ?f) = ?p"
      and sha: "SHA256 (fst ?f) = snd (verifyFile H d (ls_world ?st) ?p url)"
      and st: "Status (fst ?f) = ''ok''" by blast+
    from verifyFile_True[OF v] obtain content where
      c: "files (ls_world ?st) ?p = Some content"
         "snd (verifyFile H d (ls_world ?st) ?p url) = H content"
         "\<forall>want. checksums d url = Some want \<and> want \<noteq> [] \<longrightarrow> EqualFold want (H content)"
      by blast
    have "files (snd ?f) (Path (fst ?f)) = Some content"
      by (simp only: pth finish_fetch_files c(1))
    moreover have "SHA256 (fst ?f) = H content" by (simp only: sha c(2))
    ultimately show ?thesis
      unfolding f using st c(3) False by auto
  qed
qed

lemma fetchOne_ok_record_download:
  "OK (fst (fetchOne demo_digest demo_downloader (always (Response 200 ''abc'' None)) demo_url
              False (world_with Map.empty)))
   \<and> Status (fst (fetchOne demo_digest demo_downloader (always (Response 200 ''abc'' None))
              demo_url False (world_with Map.empty))) = ''ok''
   \<and> (\<exists>content.
         files (snd (fetchOne demo_digest demo_downloader (always (Response 200 ''abc'' None))
                  demo_url False (world_with Map.empty)))
           (Path (fst (fetchOne demo_digest demo_downloader (always (Response 200 ''abc'' None))
                  demo_url False (world_with Map.empty)))) = Some content
         \<and> SHA256 (fst (fetchOne demo_digest demo_downloader (always (Response 200 ''abc'' None))
                  demo_url False (world_with Map.empty))) = demo_digest content
         \<and> EqualFold ''SHA256:ABC'' (demo_digest content))"
proof -
  have c: "checksums demo_downloader demo_url = Some ''SHA256:ABC'' \<and> ''SHA256:ABC'' \<noteq> []"
    by (simp add: demo_downloader_def NewDownloader_def)
  from fetchOne_ok_record[OF demo_download_ok] demo_not_resumes c demo_download_ok
  show ?thesis by blast
qed

text \<open>
  Claim C2 says that the \<open>sha256\<close> field of every Record with \<open>ok = true\<close> and
  \<open>status = "ok"\<close> is the digest of the file at the Record's path. The download path
  records the digest that \<open>verifyFile\<close> returns (\<open>fetchOne_ok_record\<close> above), and
  \<open>verifyFile\<close> computes the digest on every call in order to have it recorded; the
  resume path calls \<open>verifyFile\<close> too but drops the digest (\<open>ok, _ :=\<close>) and leaves the
  field empty. Here the target file of the URL is already in the output tree with the
  expected digest: the Record has \<open>ok = true\<close>, \<open>status = "ok"\<close> and the path of the
  file, the file is there with content \<open>abc\<close>, and the \<open>sha256\<close> field is the empty
  string, not the digest of \<open>abc\<close>. The expected hash does match, as the second part of
  the claim says.
\<close>

theorem fetchOne_resume_drops_sha256:
  "OK (fst (fetchOne demo_digest demo_downloader (always (Response 200 ''abc'' None))
         demo_url False demo_resume_world))
   \<and> Status (fst (fetchOne demo_digest demo_downloader (always (Response 200 ''abc'' None))
         demo_url False demo_resume_world)) = ''ok''
   \<and> Path (fst (fetchOne demo_digest demo_downloader (always (Response 200 ''abc'' None))
         demo_url False demo_resume_world)) = ''out/s/er/serde-1.0.0.crate''
   \<and> files (snd (fetchOne demo_digest demo_downloader (always (Response 200 ''abc'' None))
         demo_url False demo_resume_world)) ''out/s/er/serde-1.0.0.crate'' = Some ''abc''
   \<and> SHA256 (fst (fetchOne demo_digest demo_downloader (always (Response 200 ''abc'' None))
         demo_url False demo_resume_world)) = []
   \<and> demo_digest ''abc'' = ''sha256:abc''
   \<and> checksums demo_downloader demo_url = Some ''SHA256:ABC''
   \<and> EqualFold ''SHA256:ABC'' (demo_digest ''abc'')"
proof -
  have r: "OK (fst (fetchOne demo_digest demo_downloader (always (Response 200 ''abc'' None))
         demo_url False demo_resume_world))
   \<and> Status (fst (fetchOne demo_digest demo_downloader (always (Response 200 ''abc'' None))
         demo_url False demo_resume_world)) = ''ok''
   \<and> Path (fst (fetchOne demo_digest demo_downloader (always (Response 200 ''abc'' None))
         demo_url False demo_resume_world)) = ''out/s/er/serde-1.0.0.crate''
   \<and> files (snd (fetchOne demo_digest demo_downloader (always (Response 200 ''abc'' None))
         demo_url False demo_resume_world)) ''out/s/er/serde-1.0.0.crate'' = Some ''abc''
   \<and> SHA256 (fst (fetchOne demo_digest demo_downloader (always (Response 200 ''abc'' None))
         demo_url False demo_resume_world)) = []"
    by (simp only: demo_resume_record)
       (simp add: rec_start_def incOK_def demo_resume_world_def world_with_def)
  have d: "demo_digest ''abc'' = ''sha256:abc''" by (simp add: demo_digest_def)
  from r d demo_resume_facts(2,3) show ?thesis by (intro conjI) simp_all
qed

section \<open>The temporary file\<close>

lemma attempt_body_no_part:
  "\<not> keeps_part aio \<Longrightarrow>
   files (ls_world (snd (attempt_body d aio url tmp p attempts attempt st))) tmp = None"
  by (auto simp: keeps_part_def attempt_body_def after_attempt_def remove_file_def
      write_file_def log_request_def Let_def split: option.splits http_result.splits if_splits)

lemma attempt_loop_no_part:
  assumes "\<forall>k. \<not> keeps_part (ios k)" and "attempt \<le> attempts"
      and "m = nat (attempts - attempt)"
  shows "files (ls_world (attempt_loop d ios url tmp p attempts attempt st)) tmp = None"
  using assms
proof (induction m arbitrary: attempt st)
  case 0
  then have eq: "attempt = attempts" by simp
  obtain fl st' where b: "attempt_body d (ios attempts) url tmp p attempts attempts st = (fl, st')"
    by (cases "attempt_body d (ios attempts) url tmp p attempts attempts st")
  from attempt_body_no_part[of "ios attempts" d url tmp p attempts attempts st] 0(1) b
  have n: "files (ls_world st') tmp = None" by simp
  from attempt_body_Panic[of d "ios attempts" url tmp p attempts attempts st] 0(1) b
  have np: "fl \<noteq> Panic" by (auto simp: keeps_part_def)
  have "attempt_loop d ios url tmp p attempts attempts st = st'"
    using np by (subst attempt_loop.simps) (cases fl; simp add: b attempt_loop_last)
  with n eq show ?case by simp
next
  case (Suc m)
  then have lt: "attempt < attempts" by simp
  obtain fl st' where b: "attempt_body d (ios attempt) url tmp p attempts attempt st = (fl, st')"
    by (cases "attempt_body d (ios attempt) url tmp p attempts attempt st")
  from attempt_body_no_part[of "ios attempt" d url tmp p attempts attempt st] Suc.prems(1) b
  have n: "files (ls_world st') tmp = None" by simp
  from attempt_body_Panic[of d "ios attempt" url tmp p attempts attempt st] Suc.prems(1) b
  have np: "fl \<noteq> Panic" by (auto simp: keeps_part_def)
  show ?case
  proof (cases fl)
    case Panic
    with np show ?thesis by simp
  next
    case Break
    have "attempt_loop d ios url tmp p attempts attempt st = st'"
      using lt by (subst attempt_loop.simps) (simp add: b Break)
    with n show ?thesis by simp
  next
    case Continue
    have "attempt_loop d ios url tmp p attempts attempt st
            = attempt_loop d ios url tmp p attempts (attempt + 1) st'"
      using lt by (subst attempt_loop.simps) (simp add: b Continue)
    moreover have "files (ls_world (attempt_loop d ios url tmp p attempts (attempt + 1) st')) tmp
                     = None"
      using Suc.prems lt by (intro Suc.IH) simp_all
    ultimately show ?thesis by simp
  qed
qed

lemma fetchOne_no_part_file:
  assumes "files w (target_path H d url @ ''.part'') = None"
      and "\<forall>k. \<not> keeps_part (attempt_ios io k)"
  shows "files (snd (fetchOne H d io url fc w)) (target_path H d url @ ''.part'') = None"
proof (cases "mkdir_err io")
  case (Some err)
  with assms(1) show ?thesis by (simp add: fetchOne_mkdir_fails incErr_def)
next
  case None
  show ?thesis
  proof (cases "resumes H d w url")
    case True
    with assms(1) show ?thesis by (simp add: fetchOne_resume[OF None True] incOK_def)
  next
    case False
    have "(1::int) \<le> max 1 (retries d)" by simp
    from attempt_loop_no_part[OF assms(2) this refl]
    show ?thesis
      by (simp add: fetchOne_loop[OF None False] finish_fetch_files)
  qed
qed

lemma attempt_body_copy_interrupted:
  assumes "tmp_create_err aio = None" "do_result aio = Response 200 body (Some err)"
      and "is_context_err err"
  shows "attempt_body d aio url tmp p attempts attempt st =
           (Break, st\<lparr>ls_attemptCnt := attempt, ls_n := int (length body), ls_lastErr := Some err,
                      ls_world := (ls_world st)
                        \<lparr>files := (files (ls_world st))(tmp \<mapsto> body),
                         requests := requests (ls_world st) @ [url]\<rparr>\<rparr>)"
  using assms
  by (simp add: attempt_body_def after_attempt_def remove_file_def write_file_def log_request_def Let_def)

lemma fetchOne_copy_interrupted:
  assumes "mkdir_err io = None" and "\<not> resumes H d w url"
      and "tmp_create_err (attempt_ios io 1) = None"
      and "do_result (attempt_ios io 1) = Response 200 body (Some err)"
      and "is_context_err err"
  shows "files (snd (fetchOne H d io url fc w)) (target_path H d url @ ''.part'') = Some body"
proof -
  let ?p = "target_path H d url"
  have "attempt_loop d (attempt_ios io) url (?p @ ''.part'') ?p (max 1 (retries d)) 1 (loop_start w)
          = (loop_start w)\<lparr>ls_attemptCnt := 1, ls_n := int (length body), ls_lastErr := Some err,
                ls_world := w\<lparr>files := (files w)(?p @ ''.part'' \<mapsto> body),
                               requests := requests w @ [url]\<rparr>\<rparr>"
    by (rule attempt_loop_break)
       (simp_all add: attempt_body_copy_interrupted[OF assms(3-5)] loop_start_def)
  then show ?thesis
    by (simp add: fetchOne_loop[OF assms(1,2)] finish_fetch_files)
qed

text \<open>
  Claim C4 says that no file \<open><target>.part\<close> remains once \<open>fetchOne\<close> has completed,
  however it ended. The code deletes the temporary file after a transport error and
  after a non-200 status, and at the start of the next attempt, but not after a failed
  body copy or a failed rename: when that attempt is the last one, the file stays
  (\<open>fetchOne_no_part_file\<close> above covers all other cases in which \<open>fetchOne\<close>
  returns). Here the server answers 200
  and the request's deadline expires in the middle of the body, with the default
  configuration and an empty output tree: \<open>fetchOne\<close> leaves the loop at once and the
  partial file \<open>out/s/er/serde-1.0.0.crate.part\<close> is still there when it returns.
\<close>

theorem fetchOne_leaves_part_file:
  "files (world_with Map.empty) ''out/s/er/serde-1.0.0.crate.part'' = None
   \<and> files (snd (fetchOne demo_digest (NewDownloader ''out'' 4 Map.empty) deadline_mid_body
                   demo_url False (world_with Map.empty)))
        ''out/s/er/serde-1.0.0.crate.part'' = Some ''ab''"
proof -
  have h: "mkdir_err deadline_mid_body = None"
    "\<not> resumes demo_digest (NewDownloader ''out'' 4 Map.empty) (world_with Map.empty) demo_url"
    "tmp_create_err (attempt_ios deadline_mid_body 1) = None"
    "do_result (attempt_ios deadline_mid_body 1)
       = Response 200 ''ab'' (Some (GoError WrapsDeadline ''context deadline exceeded''))"
    "is_context_err (GoError WrapsDeadline ''context deadline exceeded'')"
    by (simp_all add: deadline_mid_body_def always_def answer_def resumes_def world_with_def)
  from fetchOne_copy_interrupted[OF h, of False]
  have "files (snd (fetchOne demo_digest (NewDownloader ''out'' 4 Map.empty) deadline_mid_body
                   demo_url False (world_with Map.empty)))
        ''out/s/er/serde-1.0.0.crate.part'' = Some ''ab''"
    by (simp add: target_path_demo)
  moreover have "files (world_with Map.empty) ''out/s/er/serde-1.0.0.crate.part'' = None"
    by (simp add: world_with_def)
  ultimately show ?thesis by (intro conjI)
qed

section \<open>Backoff\<close>

lemma attempt_body_retryable_sleeps:
  assumes "retryable_failure aio"
  shows "sleeps (ls_world (snd (attempt_body d aio url tmp p attempts attempt st)))
           = sleeps (ls_world st)
             @ (if attempt < attempts then [sleep_for d (unix_nano aio) attempt] else [])"
  using assms
  by (auto simp: retryable_failure_def retryable_status_def attempt_body_def after_attempt_def
      remove_file_def write_file_def log_request_def Let_def split: option.splits http_result.splits if_splits)

lemma upto_first: "i \<le> j \<Longrightarrow> [i..j] = i # [i + 1..j]"
  by (simp add: upto_rec1)

lemma attempt_loop_retryable_sleeps:
  assumes "\<forall>k. attempt \<le> k \<and> k \<le> attempts \<longrightarrow> retryable_failure (ios k)"
      and "attempt \<le> attempts" and "m = nat (attempts - attempt)"
  shows "sleeps (ls_world (attempt_loop d ios url tmp p attempts attempt st))
           = sleeps (ls_world st)
             @ map (\<lambda>k. sleep_for d (unix_nano (ios k)) k) [attempt..attempts - 1]"
  using assms
proof (induction m arbitrary: attempt st)
  case 0
  then have eq: "attempt = attempts" by simp
  from 0 eq have r: "retryable_failure (ios attempts)" by simp
  from attempt_body_retryable[OF r, of d url tmp p attempts attempts st]
  obtain st' where st': "attempt_body d (ios attempts) url tmp p attempts attempts st = (Continue, st')"
    by blast
  have l: "attempt_loop d ios url tmp p attempts attempts st = st'"
    by (subst attempt_loop.simps) (simp add: st' attempt_loop_last)
  from attempt_body_retryable_sleeps[OF r, of d url tmp p attempts attempts st] st'
  have "sleeps (ls_world st') = sleeps (ls_world st)" by simp
  with l eq show ?case by simp
next
  case (Suc m)
  then have lt: "attempt < attempts" by simp
  from Suc.prems have r: "retryable_failure (ios attempt)" by simp
  from attempt_body_retryable[OF r, of d url tmp p attempts attempt st]
  obtain st' where st': "attempt_body d (ios attempt) url tmp p attempts attempt st = (Continue, st')"
    by blast
  have step: "attempt_loop d ios url tmp p attempts attempt st
              = attempt_loop d ios url tmp p attempts (attempt + 1) st'"
    using lt by (subst attempt_loop.simps) (simp add: st')
  from attempt_body_retryable_sleeps[OF r, of d url tmp p attempts attempt st] st' lt
  have s: "sleeps (ls_world st') = sleeps (ls_world st) @ [sleep_for d (unix_nano (ios attempt)) attempt]"
    by simp
  have "sleeps (ls_world (attempt_loop d ios url tmp p attempts (attempt + 1) st'))
           = sleeps (ls_world st')
             @ map (\<lambda>k. sleep_for d (unix_nano (ios k)) k) [attempt + 1..attempts - 1]"
    using Suc.prems lt by (intro Suc.IH) simp_all
  moreover have "[attempt..attempts - 1] = attempt # [attempt + 1..attempts - 1]"
    using lt by (intro upto_first) simp
  ultimately show ?case by (simp add: step s)
qed

lemma fetchOne_retryable_sleeps:
  assumes "mkdir_err io = None" and "\<not> resumes H d w url"
      and "\<forall>k. 1 \<le> k \<and> k \<le> max 1 (retries d) \<longrightarrow> retryable_failure (attempt_ios io k)"
  shows "sleeps (snd (fetchOne H d io url fc w))
           = sleeps w @ map (\<lambda>k. sleep_for d (unix_nano (attempt_ios io k)) k)
                          [1..max 1 (retries d) - 1]"
proof -
  have le: "(1::int) \<le> max 1 (retries d)" by simp
  from attempt_loop_all_retryable[OF assms(3) le refl]
  have np: "\<not> ls_panicked (attempt_loop d (attempt_ios io) url (target_path H d url @ ''.part'')
                    (target_path H d url) (max 1 (retries d)) 1 (loop_start w))"
    by simp
  from attempt_loop_retryable_sleeps[OF assms(3) le refl]
  show ?thesis
    by (simp add: fetchOne_download[OF assms(1,2) np] finish_fetch_sleeps loop_start_def)
qed

lemma jitter_num_range: "512 \<le> jitter_num now \<and> jitter_num now < 1536"
proof -
  have "now AND 0x3ff \<le> 0x3ff" by (rule word_and_le1)
  then have "uint (now AND 0x3ff) \<le> uint (0x3ff :: 64 word)" by (simp add: word_le_def)
  then show ?thesis by (simp add: jitter_num_def)
qed

lemma push_bit_as_product:
  fixes w :: "64 word"
  shows "push_bit n w = word_of_int (sint w * 2 ^ n)"
  by (simp add: push_bit_eq_mult)

lemma sint_push_bit_exact:
  fixes w :: "64 word"
  assumes "0 < sint w" "sint w * 2 ^ n < 2 ^ 63"
  shows "sint (push_bit n w) = sint w * 2 ^ n"
proof -
  have "sint (push_bit n w) = signed_take_bit 63 (sint w * 2 ^ n)"
    by (simp only: push_bit_as_product sint_sbintrunc') simp
  also have "\<dots> = sint w * 2 ^ n"
    using assms by (intro signed_take_bit_int_eq_self) (auto intro: order_trans[of _ 0])
  finally show ?thesis .
qed

text \<open>
  Where the shift does not overflow, the sleep is the capped exponential times the
  jitter \<open>jitter_num / 1024\<close>, which lies in \<open>[0.5, 1.5)\<close>, cut to whole nanoseconds.
\<close>

lemma sleep_for_no_overflow:
  assumes "1 \<le> k" "0 < sint (retryBase d)" "sint (retryBase d) * 2 ^ nat (k - 1) < 2 ^ 63"
      and "0 \<le> sint (retryMax d)"
  shows "sleep_for d now k
           = (min (sint (retryBase d) * 2 ^ nat (k - 1)) (sint (retryMax d)) * jitter_num now) div 1024"
proof -
  have b: "sint (backoff d k) = min (sint (retryBase d) * 2 ^ nat (k - 1)) (sint (retryMax d))"
    by (simp add: backoff_def Let_def sint_push_bit_exact[OF assms(2,3)] min_def)
  have "0 \<le> min (sint (retryBase d) * 2 ^ nat (k - 1)) (sint (retryMax d))"
    using assms(2,4) by (simp add: min_def)
  moreover have "0 \<le> jitter_num now" using jitter_num_range[of now] by simp
  ultimately have "0 \<le> min (sint (retryBase d) * 2 ^ nat (k - 1)) (sint (retryMax d)) * jitter_num now"
    by simp
  then show ?thesis by (simp add: sleep_for_def b trunc_div_def)
qed

lemma backoff_at_36:
  "sint (backoff (SetRetries 40 (NewDownloader ''out'' 4 Map.empty)) 36) = - 1266874889709551616"
  by (simp add: backoff_def SetRetries_def NewDownloader_def)

lemma sleep_at_36:
  "sleep_for (SetRetries 40 (NewDownloader ''out'' 4 Map.empty)) 0 36 = - 633437444854775808"
  by (simp add: sleep_for_def backoff_at_36 jitter_num_def trunc_div_def)

text \<open>
  Claim C10 says that the sleep after a retryable failure on attempt \<open>k\<close> is
  \<open>min(base * 2^(k-1), cap)\<close> times a jitter in \<open>[0.5, 1.5)\<close>. The code computes
  \<open>base << (k-1)\<close> on \<open>int64\<close> before it compares with the cap, and the shift overflows
  for large \<open>k\<close>. With the default base and cap and 40 configured attempts
  (\<open>-retries 40\<close>), against a server that always answers 500: on attempt 36 the shifted
  value is negative, the cap is not applied, and the sleep (the 36th of the run) is
  negative, where the claim gives at least 15 seconds.
\<close>

theorem fetchOne_backoff_overflow:
  "retries (SetRetries 40 (NewDownloader ''out'' 4 Map.empty)) = 40
   \<and> sint (backoff (SetRetries 40 (NewDownloader ''out'' 4 Map.empty)) 36) < 0
   \<and> sleeps (snd (fetchOne demo_digest (SetRetries 40 (NewDownloader ''out'' 4 Map.empty))
                    (always (Response 500 [] None)) demo_url False (world_with Map.empty))) ! 35
       = - 633437444854775808"
proof -
  let ?d = "SetRetries 40 (NewDownloader ''out'' 4 Map.empty)"
  have r: "retries ?d = 40" by (simp add: SetRetries_def NewDownloader_def)
  have h1: "mkdir_err (always (Response 500 [] None)) = None"
    by (simp add: always_def)
  have h2: "\<not> resumes demo_digest ?d (world_with Map.empty) demo_url"
    by (simp add: resumes_def world_with_def)
  have h3: "\<forall>k. 1 \<le> k \<and> k \<le> max 1 (retries ?d) \<longrightarrow>
         retryable_failure (attempt_ios (always (Response 500 [] None)) k)"
    by (simp add: always_def retryable_500)
  have now: "unix_nano (attempt_ios (always (Response 500 [] None)) k) = 0" for k
    by (simp add: always_def answer_def)
  have nil: "sleeps (world_with Map.empty) = []" by (simp add: world_with_def)
  have "sleeps (snd (fetchOne demo_digest ?d (always (Response 500 [] None)) demo_url False
          (world_with Map.empty))) = map (\<lambda>k. sleep_for ?d 0 k) [1..39]"
    by (simp add: fetchOne_retryable_sleeps[OF h1 h2 h3] now nil r)
  moreover have "map (\<lambda>k. sleep_for ?d 0 k) [1..39] ! 35 = sleep_for ?d 0 36"
    by (simp add: nth_upto)
  ultimately have "sleeps (snd (fetchOne demo_digest ?d (always (Response 500 [] None)) demo_url
          False (world_with Map.empty))) ! 35 = - 633437444854775808"
    by (simp only: sleep_at_36)
  moreover have "sint (backoff ?d 36) < 0" by (simp only: backoff_at_36)
  ultimately show ?thesis using r by (intro conjI)
qed

section \<open>The rolling bundler\<close>

declare dec_digits.simps [simp del]

lemma digit_val_digit_char: "k < 10 \<Longrightarrow> digit_val (digit_char k) = k"
proof -
  assume "k < 10"
  then have "k = 0 \<or> k = 1 \<or> k = 2 \<or> k = 3 \<or> k = 4 \<or> k = 5 \<or> k = 6 \<or> k = 7 \<or> k = 8 \<or> k = 9"
    by arith
  then show ?thesis
    by (elim disjE) (simp_all add: digit_val_def digit_char_def)
qed

lemma dec_val_snoc: "dec_val (s @ [c]) = 10 * dec_val s + digit_val c"
  by (simp add: dec_val_def)

lemma dec_val_dec_digits: "dec_val (dec_digits k) = k"
proof (induction k rule: dec_digits.induct)
  case (1 k)
  show ?case
  proof (cases "k < 10")
    case True
    then show ?thesis
      by (subst dec_digits.simps) (simp add: dec_val_def digit_val_digit_char)
  next
    case False
    with 1 have "dec_val (dec_digits (k div 10)) = k div 10" by simp
    with False show ?thesis
      by (subst dec_digits.simps) (simp add: dec_val_snoc digit_val_digit_char)
  qed
qed

lemma digit_val_zero: "digit_val (CHR ''0'') = 0"
  by (simp add: digit_val_def)

lemma dec_val_zeros: "dec_val (replicate m (CHR ''0'') @ s) = dec_val s"
proof -
  have "foldl (\<lambda>acc c. 10 * acc + digit_val c) 0 (replicate m (CHR ''0'')) = 0"
    by (induction m) (simp_all add: digit_val_zero)
  then show ?thesis by (simp add: dec_val_def)
qed

lemma dec_val_fmt_04d: "0 \<le> i \<Longrightarrow> dec_val (fmt_04d i) = nat i"
  by (simp add: fmt_04d_def pad0_def dec_val_zeros dec_val_dec_digits)

lemma bundle_name_inj:
  assumes "0 \<le> i" "0 \<le> j" "bundle_name i = bundle_name j"
  shows "i = j"
proof -
  from assms(3) have "fmt_04d i = fmt_04d j" by (simp add: bundle_name_def)
  then have "dec_val (fmt_04d i) = dec_val (fmt_04d j)" by simp
  with assms(1,2) show ?thesis by (simp add: dec_val_fmt_04d)
qed

lemma digit_char_not_sep: "k < 10 \<Longrightarrow> digit_char k \<noteq> CHR ''/''"
proof -
  assume "k < 10"
  then have "k = 0 \<or> k = 1 \<or> k = 2 \<or> k = 3 \<or> k = 4 \<or> k = 5 \<or> k = 6 \<or> k = 7 \<or> k = 8 \<or> k = 9"
    by arith
  then show ?thesis
    by (elim disjE) (simp_all add: digit_char_def)
qed

lemma dec_digits_no_sep: "CHR ''/'' \<notin> set (dec_digits k)"
proof (induction k rule: dec_digits.induct)
  case (1 k)
  show ?case
  proof (cases "k < 10")
    case True
    with digit_char_not_sep[of k] show ?thesis
      by (subst dec_digits.simps) auto
  next
    case False
    with 1 have "CHR ''/'' \<notin> set (dec_digits (k div 10))" by simp
    with False digit_char_not_sep[of "k mod 10"] show ?thesis
      by (subst dec_digits.simps) auto
  qed
qed

lemma bundle_name_plain: "plain_elem (bundle_name i)"
  by (simp add: plain_elem_def bundle_name_def fmt_04d_def pad0_def dec_digits_no_sep)

lemma bundle_path_inj:
  assumes "0 \<le> i" "0 \<le> j" "bundle_path out i = bundle_path out j"
  shows "i = j"
proof -
  from assms(3) have "bundle_name i = bundle_name j"
    by (simp add: bundle_path_def Join_plain_last[OF bundle_name_plain])
  with assms(1,2) show ?thesis by (rule bundle_name_inj)
qed

lemma distinct_bundle_paths: "distinct (map (\<lambda>i. bundle_path out (int i)) [0..<m])"
  by (auto simp: distinct_map inj_on_def dest: bundle_path_inj[rotated 2])

lemma rotateLocked_inv:
  assumes "bundler_inv b" "zstd_err io = None"
  shows "bundler_inv (fst (rotateLocked io b))"
proof -
  from assms(1) have idx: "1 \<le> currentIdx b" by (simp add: bundler_inv_def)
  then have "[0..<nat (currentIdx b + 1)] = [0..<nat (currentIdx b)] @ [nat (currentIdx b)]"
    by (simp add: nat_add_distrib)
  with assms idx show ?thesis
    by (auto simp: bundler_inv_def rotateLocked_def bundle_path_def Let_def split: option.splits)
qed

lemma write_entry_inv: "bundler_inv b \<Longrightarrow> bundler_inv (fst (write_entry io h sz b))"
  by (auto simp: bundler_inv_def write_entry_def Let_def split: option.splits)

lemma AddFile_inv:
  assumes "bundler_inv b" "zstd_err io = None"
  shows "bundler_inv (fst (AddFile io fm p h b))"
proof -
  have r: "bundler_inv (fst (rotateLocked io b))" by (rule rotateLocked_inv[OF assms])
  show ?thesis
    using assms(1) r write_entry_inv[of b io h] write_entry_inv[of "fst (rotateLocked io b)" io h]
    by (auto simp: AddFile_def Let_def split: option.splits prod.splits)
qed

lemma add_files_inv:
  "bundler_inv b \<Longrightarrow> \<forall>c \<in> set calls. zstd_err (fst c) = None \<Longrightarrow> bundler_inv (add_files calls b)"
proof (induction calls arbitrary: b)
  case Nil
  then show ?case by simp
next
  case (Cons c calls)
  obtain io fm p h where c: "c = (io, fm, p, h)" by (cases c)
  with Cons.prems have "bundler_inv (fst (AddFile io fm p h b))" by (intro AddFile_inv) simp_all
  with Cons c show ?case by simp
qed

lemma NewBundler_inv:
  assumes "NewBundler me io True out gb = Inr b" "zstd_err io = None"
  shows "bundler_inv b \<and> bOutDir b = out"
  using assms
  by (auto simp: NewBundler_def rotateLocked_def emptyBundler_def bundler_inv_def bundle_path_def
      Let_def split: option.splits if_splits)

lemma rotateLocked_outDir: "rotateLocked io b = (b', e) \<Longrightarrow> bOutDir b' = bOutDir b"
  by (auto simp: rotateLocked_def Let_def split: option.splits if_splits)

lemma write_entry_outDir: "bOutDir (fst (write_entry io h sz b)) = bOutDir b"
  by (simp add: write_entry_def Let_def split: option.splits)

lemma AddFile_outDir: "bOutDir (fst (AddFile io fm p h b)) = bOutDir b"
  by (auto simp: AddFile_def write_entry_outDir Let_def dest: rotateLocked_outDir
      split: option.splits prod.splits)

lemma add_files_outDir: "bOutDir (add_files calls b) = bOutDir b"
  by (induction calls arbitrary: b) (auto simp: AddFile_outDir)

lemma rotateLocked_idx: "rotateLocked io b = (b', e) \<Longrightarrow> currentIdx b \<le> currentIdx b'"
  by (auto simp: rotateLocked_def Let_def split: option.splits if_splits)

lemma write_entry_idx: "currentIdx (fst (write_entry io h sz b)) = currentIdx b"
  by (simp add: write_entry_def Let_def split: option.splits)

lemma AddFile_idx: "currentIdx b \<le> currentIdx (fst (AddFile io fm p h b))"
  by (auto simp: AddFile_def write_entry_idx Let_def dest: rotateLocked_idx
      split: option.splits prod.splits)

lemma write_entry_events:
  "events (fst (write_entry io h sz b)) = events b
   \<or> events (fst (write_entry io h sz b)) = events b @ [TarHeader h sz]"
  by (simp add: write_entry_def Let_def split: option.splits)

lemma write_entry_created: "created (fst (write_entry io h sz b)) = created b"
  by (simp add: write_entry_def Let_def split: option.splits)

lemma rotateLocked_events:
  assumes "bundler_inv b"
  shows "\<exists>rest. events (fst (rotateLocked io b)) = events b @ [TarClose, ZstdClose, FileClose] @ rest"
  using assms by (auto simp: bundler_inv_def rotateLocked_def Let_def split: option.splits)

lemma rotated_after_rotateLocked:
  assumes "bundler_inv b"
  shows "rotated b (fst (write_entry io h sz (fst (rotateLocked io b))))"
    and "rotated b (fst (rotateLocked io b))"
proof -
  from rotateLocked_events[OF assms, of io] obtain rest where
    r: "events (fst (rotateLocked io b)) = events b @ [TarClose, ZstdClose, FileClose] @ rest"
    by blast
  then show "rotated b (fst (rotateLocked io b))" by (simp add: rotated_def)
  from write_entry_events[of io h sz "fst (rotateLocked io b)"] r
  show "rotated b (fst (write_entry io h sz (fst (rotateLocked io b))))"
    by (auto simp: rotated_def)
qed

lemma not_rotated_write_entry: "\<not> rotated b (fst (write_entry io h sz b))"
  using write_entry_events[of io h sz b] by (auto simp: rotated_def)

lemma AddFile_unfold:
  assumes "enabled b" "stat_err io = None" "fm p = Some content"
  shows "fst (AddFile io fm p h b) =
           (if targetBytes b < currentBytes b + int (length content)
            then (case snd (rotateLocked io b) of
                    Some err \<Rightarrow> fst (rotateLocked io b)
                  | None \<Rightarrow> fst (write_entry io h (int (length content)) (fst (rotateLocked io b))))
            else fst (write_entry io h (int (length content)) b))"
  using assms by (simp add: AddFile_def Let_def split: prod.splits option.splits)

lemma AddFile_rotates_iff:
  assumes "bundler_inv b" "stat_err io = None" "fm p = Some content"
  shows "rotated b (fst (AddFile io fm p h b))
           \<longleftrightarrow> targetBytes b < currentBytes b + int (length content)"
proof -
  from assms(1) have en: "enabled b" by (simp add: bundler_inv_def)
  show ?thesis
    using rotated_after_rotateLocked(1)[OF assms(1), where io = io and h = h
        and sz = "int (length content)"]
      rotated_after_rotateLocked(2)[OF assms(1), where io = io]
      not_rotated_write_entry[where b = b and io = io and h = h and sz = "int (length content)"]
    by (simp add: AddFile_unfold[where fm = fm and p = p, OF en assms(2,3)] split: option.splits)
qed

lemma rotateLocked_success:
  assumes "enabled b" "bundle_create_err io = None" "zstd_err io = None"
  shows "snd (rotateLocked io b) = None"
    and "currentIdx (fst (rotateLocked io b)) = currentIdx b + 1"
    and "currentBytes (fst (rotateLocked io b)) = 0"
    and "tw (fst (rotateLocked io b)) = HOpen"
    and "created (fst (rotateLocked io b)) = created b @ [bundle_path (bOutDir b) (currentIdx b)]"
  using assms by (simp_all add: rotateLocked_def bundle_path_def Let_def)

lemma write_entry_bytes:
  "tw b = HOpen \<Longrightarrow>
   currentBytes (fst (write_entry io h sz b))
     = (if open_err io = None \<and> header_err io = None \<and> copy_err io = None
        then currentBytes b + sz else currentBytes b)"
  by (auto simp: write_entry_def Let_def split: option.splits)

lemma AddFile_rotation_effect:
  assumes "bundler_inv b" "stat_err io = None" "fm p = Some content"
      and "targetBytes b < currentBytes b + int (length content)"
      and "bundle_create_err io = None" "zstd_err io = None"
  shows "currentIdx (fst (AddFile io fm p h b)) = currentIdx b + 1"
    and "created (fst (AddFile io fm p h b)) = created b @ [bundle_path (bOutDir b) (currentIdx b)]"
    and "currentBytes (fst (AddFile io fm p h b))
           = (if open_err io = None \<and> header_err io = None \<and> copy_err io = None
              then int (length content) else 0)"
proof -
  from assms(1) have en: "enabled b" by (simp add: bundler_inv_def)
  note R = rotateLocked_success[OF en assms(5,6)]
  show "currentIdx (fst (AddFile io fm p h b)) = currentIdx b + 1"
    by (simp add: AddFile_unfold[where fm = fm and p = p, OF en assms(2,3)] assms(4) R write_entry_idx)
  show "created (fst (AddFile io fm p h b)) = created b @ [bundle_path (bOutDir b) (currentIdx b)]"
    by (simp add: AddFile_unfold[where fm = fm and p = p, OF en assms(2,3)] assms(4) R write_entry_created)
  show "currentBytes (fst (AddFile io fm p h b))
           = (if open_err io = None \<and> header_err io = None \<and> copy_err io = None
              then int (length content) else 0)"
    by (simp add: AddFile_unfold[where fm = fm and p = p, OF en assms(2,3)] assms(4) R write_entry_bytes)
qed

lemma AddFile_no_rotation_effect:
  assumes "enabled b" "stat_err io = None" "fm p = Some content"
      and "\<not> targetBytes b < currentBytes b + int (length content)"
  shows "currentIdx (fst (AddFile io fm p h b)) = currentIdx b"
    and "created (fst (AddFile io fm p h b)) = created b"
  using assms(4)
  by (simp_all add: AddFile_unfold[where fm = fm and p = p, OF assms(1-3)] write_entry_idx write_entry_created)

lemma bundle_paths_set:
  assumes "1 \<le> idx"
  shows "set (map (\<lambda>i. bundle_path out (int i)) [0..<nat idx]) = bundle_path out ` {0..idx - 1}"
proof -
  have "int ` {0..<nat idx} = {0..idx - 1}"
    using assms by (auto simp: image_int_atLeastLessThan)
  then have "(\<lambda>i. bundle_path out (int i)) ` {0..<nat idx} = bundle_path out ` {0..idx - 1}"
    by (metis image_image)
  then show ?thesis by simp
qed

text \<open>
  Claim C8. Take an enabled bundler as \<open>NewBundler\<close> returns it, after any sequence of
  \<open>AddFile\<close> calls (\<open>zstd.NewWriter\<close>, whose options are constant, not failing). Then
  the next \<open>AddFile\<close> of an existing file rotates, closing the tar writer, the zstd
  encoder and the file in this order, exactly when the current byte count plus the
  file's size exceeds the target; a rotation that opens its new bundle advances the
  index by one and restarts the byte count at zero (to which the file's size is added
  once it is written); without a rotation the index and the files stay. The index never
  decreases; no path is created twice; and the files created are exactly
  \<open>bundle-0000\<close> to \<open>bundle-K\<close> with \<open>K = currentIdx - 1\<close>, without gaps.
\<close>

theorem bundler_rotation:
  assumes "NewBundler me io0 True out gb = Inr b0" and "zstd_err io0 = None"
      and "\<forall>c \<in> set calls. zstd_err (fst c) = None"
      and "b = add_files calls b0"
  shows "(stat_err io = None \<and> fm p = Some content \<longrightarrow>
            (rotated b (fst (AddFile io fm p h b))
               \<longleftrightarrow> targetBytes b < currentBytes b + int (length content))
          \<and> (rotated b (fst (AddFile io fm p h b))
                \<and> bundle_create_err io = None \<and> zstd_err io = None \<longrightarrow>
                currentIdx (fst (AddFile io fm p h b)) = currentIdx b + 1
              \<and> currentBytes (fst (AddFile io fm p h b))
                  = (if open_err io = None \<and> header_err io = None \<and> copy_err io = None
                     then int (length content) else 0))
          \<and> (\<not> rotated b (fst (AddFile io fm p h b)) \<longrightarrow>
                currentIdx (fst (AddFile io fm p h b)) = currentIdx b
              \<and> created (fst (AddFile io fm p h b)) = created b))
         \<and> currentIdx b \<le> currentIdx (fst (AddFile io fm p h b))
         \<and> distinct (created b)
         \<and> 1 \<le> currentIdx b
         \<and> set (created b) = bundle_path out ` {0..currentIdx b - 1}"
proof -
  from NewBundler_inv[OF assms(1,2)] have "bundler_inv b0" and o: "bOutDir b0 = out" by simp_all
  then have inv: "bundler_inv b" unfolding assms(4) using assms(3) by (intro add_files_inv)
  then have en: "enabled b" and idx: "1 \<le> currentIdx b"
    and cr: "created b = map (\<lambda>i. bundle_path (bOutDir b) (int i)) [0..<nat (currentIdx b)]"
    by (simp_all add: bundler_inv_def)
  have ob: "bOutDir b = out" by (simp add: assms(4) add_files_outDir o)
  have A: "stat_err io = None \<and> fm p = Some content \<longrightarrow>
            (rotated b (fst (AddFile io fm p h b))
               \<longleftrightarrow> targetBytes b < currentBytes b + int (length content))
          \<and> (rotated b (fst (AddFile io fm p h b))
                \<and> bundle_create_err io = None \<and> zstd_err io = None \<longrightarrow>
                currentIdx (fst (AddFile io fm p h b)) = currentIdx b + 1
              \<and> currentBytes (fst (AddFile io fm p h b))
                  = (if open_err io = None \<and> header_err io = None \<and> copy_err io = None
                     then int (length content) else 0))
          \<and> (\<not> rotated b (fst (AddFile io fm p h b)) \<longrightarrow>
                currentIdx (fst (AddFile io fm p h b)) = currentIdx b
              \<and> created (fst (AddFile io fm p h b)) = created b)"
  proof (intro impI)
    assume "stat_err io = None \<and> fm p = Some content"
    then have s: "stat_err io = None" and f: "fm p = Some content" by simp_all
    note iff = AddFile_rotates_iff[where fm = fm and p = p, OF inv s f, of h]
    show "(rotated b (fst (AddFile io fm p h b))
               \<longleftrightarrow> targetBytes b < currentBytes b + int (length content))
          \<and> (rotated b (fst (AddFile io fm p h b))
                \<and> bundle_create_err io = None \<and> zstd_err io = None \<longrightarrow>
                currentIdx (fst (AddFile io fm p h b)) = currentIdx b + 1
              \<and> currentBytes (fst (AddFile io fm p h b))
                  = (if open_err io = None \<and> header_err io = None \<and> copy_err io = None
                     then int (length content) else 0))
          \<and> (\<not> rotated b (fst (AddFile io fm p h b)) \<longrightarrow>
                currentIdx (fst (AddFile io fm p h b)) = currentIdx b
              \<and> created (fst (AddFile io fm p h b)) = created b)"
    proof (intro conjI impI)
      show "rotated b (fst (AddFile io fm p h b))
               \<longleftrightarrow> targetBytes b < currentBytes b + int (length content)" by (rule iff)
    next
      assume r: "rotated b (fst (AddFile io fm p h b))
                \<and> bundle_create_err io = None \<and> zstd_err io = None"
      with iff have c: "targetBytes b < currentBytes b + int (length content)" by simp
      from r have e: "bundle_create_err io = None" "zstd_err io = None" by simp_all
      note E = AddFile_rotation_effect[where fm = fm and p = p, OF inv s f c e, of h]
      show "currentIdx (fst (AddFile io fm p h b)) = currentIdx b + 1" by (rule E(1))
      show "currentBytes (fst (AddFile io fm p h b))
                  = (if open_err io = None \<and> header_err io = None \<and> copy_err io = None
                     then int (length content) else 0)" by (rule E(3))
    next
      assume "\<not> rotated b (fst (AddFile io fm p h b))"
      with iff have c: "\<not> targetBytes b < currentBytes b + int (length content)" by simp
      note E = AddFile_no_rotation_effect[where fm = fm and p = p, OF en s f c, of h]
      show "currentIdx (fst (AddFile io fm p h b)) = currentIdx b" by (rule E(1))
      show "created (fst (AddFile io fm p h b)) = created b" by (rule E(2))
    qed
  qed
  have D: "distinct (created b)" by (simp only: cr distinct_bundle_paths)
  have S: "set (created b) = bundle_path out ` {0..currentIdx b - 1}"
    by (simp only: cr ob bundle_paths_set[OF idx])
  from A AddFile_idx[of b io fm p h] D idx S show ?thesis by (intro conjI)
qed

lemma first_bundle_new: "NewBundler None no_errors True ''bundles'' 0 = Inr first_bundle"
  by (simp add: NewBundler_def rotateLocked_def emptyBundler_def no_errors_def first_bundle_def
      mul_int64_def bundle_name_def fmt_04d_def pad0_def dec_digits.simps digit_char_def
      filepath_Join_def filepath_Clean_def clean_elem_def HasPrefix_def eval_nat_numeral Let_def)

lemma first_bundle_add_a:
  "add_files [add_a] first_bundle =
     \<lparr>enabled = True, bOutDir = ''bundles'', targetBytes = 0, currentIdx = 2,
      currentBytes = 1, tw = HOpen, zw = HOpen, outFile = HOpen,
      created = [''bundles/bundle-0000.tar.zst'', ''bundles/bundle-0001.tar.zst''],
      events = [FileCreate ''bundles/bundle-0000.tar.zst'', TarClose, ZstdClose, FileClose,
                FileCreate ''bundles/bundle-0001.tar.zst'', TarHeader ''a.txt'' 1]\<rparr>"
  by (simp add: add_a_def AddFile_def rotateLocked_def write_entry_def no_errors_def
      first_bundle_def bundle_name_def fmt_04d_def pad0_def dec_digits.simps digit_char_def
      filepath_Join_def filepath_Clean_def clean_elem_def HasPrefix_def eval_nat_numeral Let_def)

theorem bundler_rotation_witness:
  "NewBundler None no_errors True ''bundles'' 0 = Inr first_bundle
   \<and> zstd_err no_errors = None
   \<and> zstd_err (fst add_a) = None
   \<and> rotated (add_files [add_a] first_bundle)
        (fst (AddFile no_errors [''b.txt'' \<mapsto> ''BB''] ''b.txt'' ''b.txt''
               (add_files [add_a] first_bundle)))
   \<and> currentIdx (fst (AddFile no_errors [''b.txt'' \<mapsto> ''BB''] ''b.txt'' ''b.txt''
               (add_files [add_a] first_bundle))) = 3
   \<and> distinct (created (add_files [add_a] first_bundle))
   \<and> set (created (add_files [add_a] first_bundle)) = bundle_path ''bundles'' ` {0..1}"
proof -
  let ?b = "add_files [add_a] first_bundle"
  let ?b' = "fst (AddFile no_errors [''b.txt'' \<mapsto> ''BB''] ''b.txt'' ''b.txt'' ?b)"
  have z: "zstd_err no_errors = None" by (simp add: no_errors_def)
  have zs: "\<forall>c \<in> set [add_a]. zstd_err (fst c) = None" by (simp add: add_a_def no_errors_def)
  have io: "stat_err no_errors = None \<and> [''b.txt'' \<mapsto> ''BB''] ''b.txt'' = Some ''BB''"
    "bundle_create_err no_errors = None"
    by (simp_all add: no_errors_def)
  have v: "targetBytes ?b < currentBytes ?b + int (length ''BB'')" "currentIdx ?b = 2"
    by (simp_all add: first_bundle_add_a)
  note T = bundler_rotation[OF first_bundle_new z zs refl, where io = no_errors
      and fm = "[''b.txt'' \<mapsto> ''BB'']" and p = "''b.txt''" and content = "''BB''"
      and h = "''b.txt''"]
  from T io v(1) have r: "rotated ?b ?b'" by blast
  with T io z have "currentIdx ?b' = currentIdx ?b + 1" by blast
  then have i: "currentIdx ?b' = 3" by (simp add: v(2))
  from T have d: "distinct (created ?b)" by blast
  from T have "set (created ?b) = bundle_path ''bundles'' ` {0..currentIdx ?b - 1}" by blast
  then have s: "set (created ?b) = bundle_path ''bundles'' ` {0..1}" by (simp add: v(2))
  from zs have za: "zstd_err (fst add_a) = None" by simp
  from first_bundle_new z za r i d s show ?thesis by (intro conjI)
qed

section \<open>One Record per URL\<close>

lemma attempt_loop_no_panic:
  assumes "\<forall>k err. do_result (ios k) \<noteq> NoRequest err" and "attempt \<le> attempts"
      and "m = nat (attempts - attempt)"
  shows "ls_panicked (attempt_loop d ios url tmp p attempts attempt st) = ls_panicked st"
  using assms
proof (induction m arbitrary: attempt st)
  case 0
  then have eq: "attempt = attempts" by simp
  obtain fl st' where b: "attempt_body d (ios attempts) url tmp p attempts attempts st = (fl, st')"
    by (cases "attempt_body d (ios attempts) url tmp p attempts attempts st")
  from attempt_body_panicked[of d "ios attempts" url tmp p attempts attempts st] b
  have n: "ls_panicked st' = ls_panicked st" by simp
  from attempt_body_Panic[of d "ios attempts" url tmp p attempts attempts st] 0(1) b
  have np: "fl \<noteq> Panic" by auto
  have "attempt_loop d ios url tmp p attempts attempts st = st'"
    using np by (subst attempt_loop.simps) (cases fl; simp add: b attempt_loop_last)
  with n eq show ?case by simp
next
  case (Suc m)
  then have lt: "attempt < attempts" by simp
  obtain fl st' where b: "attempt_body d (ios attempt) url tmp p attempts attempt st = (fl, st')"
    by (cases "attempt_body d (ios attempt) url tmp p attempts attempt st")
  from attempt_body_panicked[of d "ios attempt" url tmp p attempts attempt st] b
  have n: "ls_panicked st' = ls_panicked st" by simp
  from attempt_body_Panic[of d "ios attempt" url tmp p attempts attempt st] Suc.prems(1) b
  have np: "fl \<noteq> Panic" by auto
  show ?case
  proof (cases fl)
    case Panic
    with np show ?thesis by simp
  next
    case Break
    have "attempt_loop d ios url tmp p attempts attempt st = st'"
      using lt by (subst attempt_loop.simps) (simp add: b Break)
    with n show ?thesis by simp
  next
    case Continue
    have "attempt_loop d ios url tmp p attempts attempt st
            = attempt_loop d ios url tmp p attempts (attempt + 1) st'"
      using lt by (subst attempt_loop.simps) (simp add: b Continue)
    moreover have "ls_panicked (attempt_loop d ios url tmp p attempts (attempt + 1) st')
                     = ls_panicked st'"
      using Suc.prems lt by (intro Suc.IH) simp_all
    ultimately show ?thesis using n by simp
  qed
qed

lemma finish_fetch_panicked:
  "panicked (snd (finish_fetch H d io url fc r nm p st)) = panicked (ls_world st)"
  by (simp add: finish_fetch_def Let_def incOK_def incErr_def split: option.splits prod.splits)

lemma attempt_body_world_panicked:
  "panicked (ls_world (snd (attempt_body d io url tmp p attempts attempt st)))
     = panicked (ls_world st)"
  by (simp add: attempt_body_def after_attempt_def remove_file_def write_file_def
      log_request_def Let_def split: option.splits http_result.splits)

lemma attempt_loop_world_panicked:
  assumes "attempt \<le> attempts" and "m = nat (attempts - attempt)"
  shows "panicked (ls_world (attempt_loop d ios url tmp p attempts attempt st))
           = panicked (ls_world st)"
  using assms
proof (induction m arbitrary: attempt st)
  case 0
  then have eq: "attempt = attempts" by simp
  obtain fl st' where b: "attempt_body d (ios attempts) url tmp p attempts attempts st = (fl, st')"
    by (cases "attempt_body d (ios attempts) url tmp p attempts attempts st")
  from attempt_body_world_panicked[of d "ios attempts" url tmp p attempts attempts st] b
  have n: "panicked (ls_world st') = panicked (ls_world st)" by simp
  have "ls_world (attempt_loop d ios url tmp p attempts attempts st) = ls_world st'"
    by (subst attempt_loop.simps) (cases fl; simp add: b attempt_loop_last)
  with n eq show ?case by simp
next
  case (Suc m)
  then have lt: "attempt < attempts" by simp
  obtain fl st' where b: "attempt_body d (ios attempt) url tmp p attempts attempt st = (fl, st')"
    by (cases "attempt_body d (ios attempt) url tmp p attempts attempt st")
  from attempt_body_world_panicked[of d "ios attempt" url tmp p attempts attempt st] b
  have n: "panicked (ls_world st') = panicked (ls_world st)" by simp
  show ?case
  proof (cases fl)
    case Panic
    have "ls_world (attempt_loop d ios url tmp p attempts attempt st) = ls_world st'"
      using lt by (subst attempt_loop.simps) (simp add: b Panic)
    with n show ?thesis by simp
  next
    case Break
    have "attempt_loop d ios url tmp p attempts attempt st = st'"
      using lt by (subst attempt_loop.simps) (simp add: b Break)
    with n show ?thesis by simp
  next
    case Continue
    have "attempt_loop d ios url tmp p attempts attempt st
            = attempt_loop d ios url tmp p attempts (attempt + 1) st'"
      using lt by (subst attempt_loop.simps) (simp add: b Continue)
    moreover have "panicked (ls_world (attempt_loop d ios url tmp p attempts (attempt + 1) st'))
                     = panicked (ls_world st')"
      using Suc.prems lt by (intro Suc.IH) simp_all
    ultimately show ?thesis using n by simp
  qed
qed

text \<open>\<open>fetchOne\<close> panics only when a request cannot be built.\<close>

lemma fetchOne_not_panicked:
  assumes "\<not> panicked w" and "\<forall>k err. do_result (attempt_ios io k) \<noteq> NoRequest err"
  shows "\<not> panicked (snd (fetchOne H d io url fc w))"
proof (cases "mkdir_err io")
  case (Some err)
  with assms(1) show ?thesis by (simp add: fetchOne_mkdir_fails incErr_def)
next
  case None
  show ?thesis
  proof (cases "resumes H d w url")
    case True
    with assms(1) show ?thesis by (simp add: fetchOne_resume[OF None True] incOK_def)
  next
    case False
    have le: "(1::int) \<le> max 1 (retries d)" by simp
    from attempt_loop_no_panic[OF assms(2) le refl]
    have np: "\<not> ls_panicked (attempt_loop d (attempt_ios io) url (target_path H d url @ ''.part'')
                    (target_path H d url) (max 1 (retries d)) 1 (loop_start w))"
      by simp
    from attempt_loop_world_panicked[OF le refl] assms(1)
    show ?thesis
      by (simp add: fetchOne_download[OF None False np] finish_fetch_panicked loop_start_def)
  qed
qed

lemma fetchOne_answered:
  "\<not> panicked w \<Longrightarrow> \<not> panicked (snd (fetchOne H d (always (Response code body cerr)) url fc w))"
  by (rule fetchOne_not_panicked) (simp_all add: always_def answer_def)

lemma fetchOne_URL: "URL (fst (fetchOne H d io url fc w)) = url"
proof (cases "mkdir_err io")
  case (Some err)
  then show ?thesis by (simp add: fetchOne_mkdir_fails rec_start_def)
next
  case None
  show ?thesis
  proof (cases "resumes H d w url")
    case True
    then show ?thesis by (simp add: fetchOne_resume[OF None True] rec_start_def)
  next
    case False
    then show ?thesis
      by (simp add: fetchOne_loop[OF None False] finish_fetch_URL rec_start_def)
  qed
qed

lemma sum_list_map_update:
  fixes f :: "'a \<Rightarrow> 'b::comm_monoid_add"
  shows "i < length xs \<Longrightarrow> sum_list (map f (xs[i := x])) + f (xs ! i) = sum_list (map f xs) + f x"
proof (induction xs arbitrary: i)
  case Nil
  then show ?case by simp
next
  case (Cons y ys)
  show ?case
  proof (cases i)
    case 0
    then show ?thesis by (simp add: ac_simps)
  next
    case (Suc j)
    with Cons.prems have "j < length ys" by simp
    from Cons.IH[OF this] Suc show ?thesis
      by (simp add: add.assoc)
  qed
qed

lemma flight_update:
  assumes "i < length ws" "in_flight (ws ! i) + extra = in_flight x + extra'"
  shows "sum_list (map in_flight (ws[i := x])) + extra' = sum_list (map in_flight ws) + extra"
proof -
  from sum_list_map_update[OF assms(1), of in_flight x]
  have "sum_list (map in_flight (ws[i := x])) + in_flight (ws ! i) + extra
          = sum_list (map in_flight ws) + in_flight x + extra" by simp
  then have "sum_list (map in_flight (ws[i := x])) + (in_flight x + extra')
          = sum_list (map in_flight ws) + in_flight x + extra"
    by (simp add: add.assoc assms(2))
  then show ?thesis by (simp add: ac_simps)
qed

lemma done_after_update:
  "WDone \<in> set (ws[i := x]) \<Longrightarrow> x \<noteq> WDone \<Longrightarrow> WDone \<in> set ws"
  using set_update_subset_insert[of ws i x] by auto

lemma all_done_nth: "list_all (\<lambda>ws. ws = WDone) ws \<Longrightarrow> i < length ws \<Longrightarrow> ws ! i = WDone"
  by (simp add: list_all_length)

lemma step_Fetch:
  assumes "step H d (Fetch i io) s = Some s'"
  obtains u where "i < length (workers s)" "workers s ! i = WFetch u"
    "panicked (snd (fetchOne H d io u False (rs_world s)))"
    "s' = s\<lparr>rs_world := snd (fetchOne H d io u False (rs_world s))\<rparr>"
  | u where "i < length (workers s)" "workers s ! i = WFetch u"
    "\<not> panicked (snd (fetchOne H d io u False (rs_world s)))"
    "s' = s\<lparr>workers := (workers s)[i := WSend (fst (fetchOne H d io u False (rs_world s)))],
             rs_world := snd (fetchOne H d io u False (rs_world s))\<rparr>"
  using assms by (auto split: if_splits wstate.splits prod.splits)

lemma step_inv:
  assumes "run_inv d urls s" "step H d a s = Some s'"
  shows "run_inv d urls s'"
proof (cases a)
  case (Recv i)
  with assms(2) obtain u us where f: "feed s = u # us" and i: "i < length (workers s)"
    and w: "workers s ! i = WIdle" and nc: "\<not> urlsClosed s"
    and s': "s' = s\<lparr>feed := us, workers := (workers s)[i := WFetch u]\<rparr>"
    by (auto split: list.splits if_splits)
  have fl: "sum_list (map in_flight ((workers s)[i := WFetch u])) + {#}
              = sum_list (map in_flight (workers s)) + {#u#}"
    by (rule flight_update[OF i]) (simp add: w)
  from assms(1) nc w i show ?thesis
    using fl all_done_nth[of "workers s" i]
    by (auto simp: run_inv_def s' f dest: done_after_update)
next
  case (Fetch i io)
  with assms(2) have st: "step H d (Fetch i io) s = Some s'" by simp
  from st show ?thesis
  proof (cases rule: step_Fetch)
    case (1 u)
    with assms(1) show ?thesis by (auto simp: run_inv_def)
  next
    case (2 u)
    note i = 2(1) and w = 2(2) and s' = 2(4)
    have fl: "sum_list (map in_flight ((workers s)[i := WSend (fst (fetchOne H d io u False (rs_world s)))])) + {#}
                = sum_list (map in_flight (workers s)) + {#}"
      by (rule flight_update[OF i]) (simp add: w fetchOne_URL)
    from assms(1) w i show ?thesis
      using fl all_done_nth[of "workers s" i]
      by (auto simp: run_inv_def s' dest: done_after_update)
  qed
next
  case (Send i)
  with assms(2) obtain r where i: "i < length (workers s)" and w: "workers s ! i = WSend r"
    and s': "s' = s\<lparr>manifest := manifest s @ [r], total := total s + 1,
                     workers := (workers s)[i := WIdle]\<rparr>"
    by (auto split: if_splits wstate.splits)
  have "sum_list (map in_flight ((workers s)[i := WIdle])) + {#URL r#}
              = sum_list (map in_flight (workers s)) + {#}"
    by (rule flight_update[OF i]) (simp add: w)
  then have fl: "sum_list (map in_flight (workers s))
              = add_mset (URL r) (sum_list (map in_flight ((workers s)[i := WIdle])))"
    by simp
  from assms(1) w i show ?thesis
    using all_done_nth[of "workers s" i]
    by (auto simp: run_inv_def s' fl dest: done_after_update)
next
  case CloseUrls
  with assms show ?thesis by (auto simp: run_inv_def split: if_splits)
next
  case (Exit i)
  with assms(2) have i: "i < length (workers s)" and w: "workers s ! i = WIdle"
    and c: "urlsClosed s" and s': "s' = s\<lparr>workers := (workers s)[i := WDone]\<rparr>"
    by (auto split: if_splits)
  have fl: "sum_list (map in_flight ((workers s)[i := WDone])) + {#}
              = sum_list (map in_flight (workers s)) + {#}"
    by (rule flight_update[OF i]) (simp add: w)
  from assms(1) w i c show ?thesis
    using fl all_done_nth[of "workers s" i]
    by (auto simp: run_inv_def s')
next
  case WaitReturns
  with assms show ?thesis by (auto simp: run_inv_def split: if_splits)
next
  case CollectorExit
  with assms show ?thesis by (auto simp: run_inv_def split: if_splits)
next
  case (Finish e1 e2 e3)
  with assms show ?thesis by (auto simp: run_inv_def split: if_splits)
qed

text \<open>A worker never sends on the closed \<open>resultsCh\<close> (which would panic).\<close>

lemma no_send_on_closed_channel:
  assumes "run_inv d urls s" "i < length (workers s)" "workers s ! i = WSend r"
  shows "\<not> resultsClosed s \<and> \<not> collectorDone s"
proof -
  from assms(2,3) have "\<not> list_all (\<lambda>ws. ws = WDone) (workers s)"
    by (auto simp: list_all_length)
  with assms(1) show ?thesis by (auto simp: run_inv_def)
qed

lemma exec_Cons:
  "exec H d (a # acts) s = Some s' \<longleftrightarrow>
     \<not> panicked (rs_world s) \<and> (\<exists>s1. step H d a s = Some s1 \<and> exec H d acts s1 = Some s')"
  by (auto split: option.splits)

lemma exec_inv:
  "run_inv d urls s \<Longrightarrow> exec H d acts s = Some s' \<Longrightarrow> run_inv d urls s'"
proof (induction acts arbitrary: s)
  case Nil
  then show ?case by simp
next
  case (Cons a acts)
  from Cons.prems(2) obtain s1 where "step H d a s = Some s1" "exec H d acts s1 = Some s'"
    unfolding exec_Cons by blast
  with Cons.IH[of s1] step_inv[OF Cons.prems(1)] show ?case by blast
qed

lemma sum_list_empty_msets: "sum_list (replicate k ({#} :: string multiset)) = {#}"
  by (induction k) simp_all

lemma no_flight_replicate:
  "in_flight x = {#} \<Longrightarrow> sum_list (map in_flight (replicate k x)) = {#}"
  by (simp add: sum_list_empty_msets)

lemma start_inv: "run_inv d urls (Run_start d urls w)"
  by (simp add: run_inv_def Run_start_def list_all_length sum_list_empty_msets)

lemma returned_count:
  assumes "run_inv d urls s" "mainPc s = MReturned" "1 \<le> concurrency d"
  shows "mset (map URL (manifest s)) = mset urls"
proof -
  from assms have all: "list_all (\<lambda>ws. ws = WDone) (workers s)"
    and len: "length (workers s) = nat (concurrency d)" by (simp_all add: run_inv_def)
  from len assms(3) have "0 < length (workers s)" by simp
  then have "workers s ! 0 \<in> set (workers s)" by (rule nth_mem)
  moreover from all \<open>0 < length (workers s)\<close> have "workers s ! 0 = WDone"
    by (simp add: list_all_length)
  ultimately have "WDone \<in> set (workers s)" by simp
  with assms(1) have "feed s = []" by (simp add: run_inv_def)
  moreover from all have "workers s = replicate (length (workers s)) WDone"
    by (simp add: list_all_length list_eq_iff_nth_eq)
  then have "sum_list (map in_flight (workers s)) = {#}"
    using no_flight_replicate[of WDone "length (workers s)"] by (simp del: map_replicate)
  ultimately show ?thesis using assms(1) by (simp add: run_inv_def)
qed

text \<open>
  As long as the process has not panicked and \<open>Run\<close> has not returned, some goroutine
  can take a step: the channels and wait groups do not deadlock.
\<close>

lemma can_step:
  assumes "run_inv d urls s" "mainPc s \<noteq> MReturned" "\<not> panicked (rs_world s)"
  shows "\<exists>a s'. exec H d [a] s = Some s'"
proof -
  have "\<exists>a s'. step H d a s = Some s'"
  proof (cases "mainPc s")
    case MReturned
    with assms(2) show ?thesis by simp
  next
    case MJoin
    with assms(1) have rc: "resultsClosed s" by (simp add: run_inv_def)
    show ?thesis
    proof (cases "collectorDone s")
      case True
      with MJoin have "step H d (Finish None None None) s \<noteq> None" by simp
      then show ?thesis by blast
    next
      case False
      with rc have "step H d CollectorExit s \<noteq> None" by simp
      then show ?thesis by blast
    qed
  next
    case MWait
    with assms(1) have open_res: "\<not> resultsClosed s" "\<not> collectorDone s"
      by (auto simp: run_inv_def)
    show ?thesis
    proof (cases "list_all (\<lambda>ws. ws = WDone) (workers s)")
      case True
      with MWait have "step H d WaitReturns s \<noteq> None" by simp
      then show ?thesis by blast
    next
      case False
      then obtain i where i: "i < length (workers s)" and nd: "workers s ! i \<noteq> WDone"
        by (auto simp: list_all_length)
      show ?thesis
      proof (cases "workers s ! i")
        case WDone
        with nd show ?thesis by simp
      next
        case (WFetch u)
        with i have "step H d (Fetch i (always (Response 200 [] None))) s \<noteq> None"
          by (simp add: case_prod_beta)
        then show ?thesis by blast
      next
        case (WSend r)
        with i open_res have "step H d (Send i) s \<noteq> None" by simp
        then show ?thesis by blast
      next
        case WIdle
        show ?thesis
        proof (cases "urlsClosed s")
          case True
          with WIdle i have "step H d (Exit i) s \<noteq> None" by simp
          then show ?thesis by blast
        next
          case False
          show ?thesis
          proof (cases "feed s")
            case Nil
            with False have "step H d CloseUrls s \<noteq> None" by simp
            then show ?thesis by blast
          next
            case (Cons u us)
            with False WIdle i have "step H d (Recv i) s \<noteq> None" by simp
            then show ?thesis by blast
          qed
        qed
      qed
    qed
  qed
  then obtain a s' where "step H d a s = Some s'" by blast
  with assms(3) have "exec H d [a] s = Some s'" by simp
  then show ?thesis by blast
qed

text \<open>
  Every run of \<open>Run\<close> that returns nil, with at least one worker (its only caller puts
  the default in the place of a concurrency that is not positive), under any interleaving
  of its goroutines and whatever the environment answers, has written exactly one Record
  per input URL: as many Records as URLs, the URLs of the Records are the input URLs with
  their multiplicities, and the processed count equals the length of the input.
\<close>

lemma Run_one_record_per_url:
  assumes "1 \<le> concurrency d" and "Run H d mkdir_error sched urls w = Some (Inr s)"
  shows "length (manifest s) = length urls
         \<and> mset (map URL (manifest s)) = mset urls
         \<and> total s = int (length urls)"
proof -
  from assms(2) have e: "exec H d sched (Run_start d urls w) = Some s" and r: "mainPc s = MReturned"
    by (auto simp: Run_def split: option.splits if_splits)
  from exec_inv[OF start_inv e] have inv: "run_inv d urls s" .
  from returned_count[OF inv r assms(1)] have m: "mset (map URL (manifest s)) = mset urls" .
  then have "size (mset (map URL (manifest s))) = size (mset urls)" by simp
  then have l: "length (manifest s) = length urls" by simp
  from inv l have "total s = int (length urls)" by (simp add: run_inv_def)
  with l m show ?thesis by simp
qed

lemma demo_run_returns:
  "\<exists>s. Run demo_digest (NewDownloader ''out'' 2 Map.empty) None
          (sequential 2 [always (Response 200 ''abc'' None), always (Response 404 [] None)])
          [demo_url, ''https://static.crates.io/crates/ab/ab-0.1.0.crate'']
          (world_with Map.empty) = Some (Inr s) \<and> length (manifest s) = 2"
proof -
  have "\<exists>s. Run demo_digest (NewDownloader ''out'' 2 Map.empty) None
          (sequential 2 [always (Response 200 ''abc'' None), always (Response 404 [] None)])
          [demo_url, ''https://static.crates.io/crates/ab/ab-0.1.0.crate'']
          (world_with Map.empty) = Some (Inr s)"
    by (simp add: Run_def Run_start_def sequential_def NewDownloader_def case_prod_beta
        eval_nat_numeral upt_rec fetchOne_answered world_with_def)
  then obtain s where r: "Run demo_digest (NewDownloader ''out'' 2 Map.empty) None
          (sequential 2 [always (Response 200 ''abc'' None), always (Response 404 [] None)])
          [demo_url, ''https://static.crates.io/crates/ab/ab-0.1.0.crate'']
          (world_with Map.empty) = Some (Inr s)" by blast
  have c: "1 \<le> concurrency (NewDownloader ''out'' 2 Map.empty)"
    by (simp add: NewDownloader_def)
  from Run_one_record_per_url[OF c r] have "length (manifest s) = 2" by simp
  with r show ?thesis by blast
qed

section \<open>A URL that does not parse\<close>

lemma step_panic_inv:
  assumes "step H d a s = Some s'" "\<not> panicked (rs_world s)"
  shows "panic_inv s'"
proof (cases a)
  case (Fetch i io)
  with assms(1) have st: "step H d (Fetch i io) s = Some s'" by simp
  from st show ?thesis
  proof (cases rule: step_Fetch)
    case (1 u)
    then show ?thesis by (auto simp: panic_inv_def)
  next
    case (2 u)
    then show ?thesis by (simp add: panic_inv_def)
  qed
next
  case (Recv i)
  with assms show ?thesis by (auto simp: panic_inv_def split: list.splits if_splits)
next
  case (Send i)
  with assms show ?thesis by (auto simp: panic_inv_def split: if_splits wstate.splits)
next
  case CloseUrls
  with assms show ?thesis by (auto simp: panic_inv_def split: if_splits)
next
  case (Exit i)
  with assms show ?thesis by (auto simp: panic_inv_def split: if_splits)
next
  case WaitReturns
  with assms show ?thesis by (auto simp: panic_inv_def split: if_splits)
next
  case CollectorExit
  with assms show ?thesis by (auto simp: panic_inv_def split: if_splits)
next
  case (Finish e1 e2 e3)
  with assms show ?thesis by (auto simp: panic_inv_def split: if_splits)
qed

lemma exec_panic_inv:
  "panic_inv s \<Longrightarrow> exec H d acts s = Some s' \<Longrightarrow> panic_inv s'"
proof (induction acts arbitrary: s)
  case Nil
  then show ?case by simp
next
  case (Cons a acts)
  from Cons.prems(2) obtain s1 where np: "\<not> panicked (rs_world s)"
    and s1: "step H d a s = Some s1" "exec H d acts s1 = Some s'"
    unfolding exec_Cons by blast
  from step_panic_inv[OF s1(1) np] Cons.IH[OF _ s1(2)] show ?case by blast
qed

lemma exec_append:
  "exec H d (xs @ ys) s = (case exec H d xs s of None \<Rightarrow> None | Some s' \<Rightarrow> exec H d ys s')"
  by (induction xs arbitrary: s) (auto split: option.splits)

text \<open>
  Once a worker has panicked, \<open>Run\<close> does not return, however the schedule goes on: the
  process is dead.
\<close>

lemma Run_never_returns_after_panic:
  assumes "exec H d sched (Run_start d urls w) = Some s" "panicked (rs_world s)"
      and "\<not> panicked w"
  shows "Run H d None (sched @ rest) urls w = None"
proof (cases rest)
  case Nil
  have "panic_inv (Run_start d urls w)" using assms(3) by (simp add: panic_inv_def Run_start_def)
  from exec_panic_inv[OF this assms(1)] assms(2)
  obtain i u where i: "i < length (workers s)" "workers s ! i = WFetch u"
    by (auto simp: panic_inv_def)
  then have "\<not> list_all (\<lambda>ws. ws = WDone) (workers s)" by (auto simp: list_all_length)
  with exec_inv[OF start_inv assms(1)] have "mainPc s = MWait"
    by (auto simp: run_inv_def)
  with assms(1) Nil show ?thesis by (simp add: Run_def)
next
  case (Cons a acts)
  with assms(1,2) show ?thesis by (simp add: Run_def exec_append)
qed

lemma fetchOne_no_request:
  assumes "mkdir_err io = None" and "\<not> resumes H d w url"
      and "tmp_create_err (attempt_ios io 1) = None"
      and "do_result (attempt_ios io 1) = NoRequest err"
  shows "fetchOne H d io url fc w =
           (rec_start io url,
            w\<lparr>files := (files w)(target_path H d url @ ''.part'' \<mapsto> []), panicked := True\<rparr>)"
proof -
  let ?p = "target_path H d url"
  have b: "attempt_body d (attempt_ios io 1) url (?p @ ''.part'') ?p (max 1 (retries d)) 1
             (loop_start w)
           = (Panic, (loop_start w)\<lparr>ls_attemptCnt := 1,
                        ls_world := w\<lparr>files := (files w)(?p @ ''.part'' \<mapsto> [])\<rparr>\<rparr>)"
    using assms(3,4)
    by (simp add: attempt_body_def remove_file_def write_file_def loop_start_def Let_def)
  have "attempt_loop d (attempt_ios io) url (?p @ ''.part'') ?p (max 1 (retries d)) 1 (loop_start w)
          = (loop_start w)\<lparr>ls_attemptCnt := 1,
                ls_world := w\<lparr>files := (files w)(?p @ ''.part'' \<mapsto> [])\<rparr>,
                ls_panicked := True\<rparr>"
    by (subst attempt_loop.simps) (simp add: b)
  then show ?thesis by (simp add: fetchOne_loop[OF assms(1,2)])
qed

lemma target_path_bad_url:
  "target_path H (NewDownloader ''out'' c sums) bad_url = ''out/bad/bad-1.0.0%zz.crate''"
  by (simp add: target_path_def bad_url_def NewDownloader_def crateNameFromURL_def
      sanitizeName_def crateDirFor_def filepath_Join_def filepath_Clean_def clean_elem_def
      HasPrefix_def slice_def TrimSpace_def isSpace_def Let_def)

lemma fetchOne_bad_url:
  "fetchOne demo_digest (NewDownloader ''out'' 2 Map.empty) unparsable bad_url False
     (world_with Map.empty)
   = (rec_start unparsable bad_url,
      (world_with [''out/bad/bad-1.0.0%zz.crate.part'' \<mapsto> []])\<lparr>panicked := True\<rparr>)"
proof -
  have h: "mkdir_err unparsable = None"
    "\<not> resumes demo_digest (NewDownloader ''out'' 2 Map.empty) (world_with Map.empty) bad_url"
    "tmp_create_err (attempt_ios unparsable 1) = None"
    "do_result (attempt_ios unparsable 1) = NoRequest (GoError Plain ''invalid URL escape %zz'')"
    by (simp_all add: unparsable_def always_def answer_def resumes_def world_with_def)
  show ?thesis
    by (simp only: fetchOne_no_request[OF h] target_path_bad_url) (simp add: world_with_def)
qed

text \<open>
  Claim C1 says that one run of \<open>Run\<close> writes exactly one Record per input URL. It does
  for every run that returns (\<open>Run_one_record_per_url\<close> above), but \<open>fetchOne\<close> discards
  the error of \<open>http.NewRequestWithContext\<close> and then dereferences the nil request: for
  a URL that does not parse, the worker panics, nothing recovers, and the process dies
  without a Record for that URL. Here the input is the one URL \<open>bad_url\<close>, with the
  default configuration, two workers and an empty output tree: worker 0 receives the URL
  and panics in \<open>fetchOne\<close>, leaving an empty temporary file; the manifest is empty, no
  request was sent, and \<open>Run\<close> returns under no continuation of the schedule.
\<close>

theorem Run_panics_on_unparsable_url:
  "map_option (\<lambda>s. (manifest s, total s, workers s, panicked (rs_world s),
                     requests (rs_world s),
                     files (rs_world s) ''out/bad/bad-1.0.0%zz.crate.part''))
     (exec demo_digest (NewDownloader ''out'' 2 Map.empty) [Recv 0, Fetch 0 unparsable]
        (Run_start (NewDownloader ''out'' 2 Map.empty) [bad_url] (world_with Map.empty)))
     = Some ([], 0, [WFetch bad_url, WIdle], True, [], Some [])
   \<and> (\<forall>rest. Run demo_digest (NewDownloader ''out'' 2 Map.empty) None
                ([Recv 0, Fetch 0 unparsable] @ rest) [bad_url] (world_with Map.empty) = None)
   \<and> length ([] :: Record list) \<noteq> length [bad_url]"
proof -
  let ?d = "NewDownloader ''out'' 2 Map.empty"
  let ?start = "Run_start ?d [bad_url] (world_with Map.empty)"
  let ?crash = "?start\<lparr>feed := [], workers := [WFetch bad_url, WIdle],
                 rs_world := (world_with [''out/bad/bad-1.0.0%zz.crate.part'' \<mapsto> []])
                               \<lparr>panicked := True\<rparr>\<rparr>"
  have s1: "step demo_digest ?d (Recv 0) ?start
              = Some (?start\<lparr>feed := [], workers := [WFetch bad_url, WIdle]\<rparr>)"
    by (simp add: Run_start_def NewDownloader_def eval_nat_numeral)
  have s2: "step demo_digest ?d (Fetch 0 unparsable)
              (?start\<lparr>feed := [], workers := [WFetch bad_url, WIdle]\<rparr>) = Some ?crash"
    by (simp add: Run_start_def fetchOne_bad_url)
  have np: "\<not> panicked (rs_world ?start)" by (simp add: Run_start_def world_with_def)
  have np': "\<not> panicked (rs_world (?start\<lparr>feed := [], workers := [WFetch bad_url, WIdle]\<rparr>))"
    by (simp add: Run_start_def world_with_def)
  have e: "exec demo_digest ?d [Recv 0, Fetch 0 unparsable] ?start = Some ?crash"
    by (simp only: exec.simps np np' s1 s2 if_False option.case)
  have p: "panicked (rs_world ?crash)" by simp
  have w: "\<not> panicked (world_with Map.empty)" by (simp add: world_with_def)
  have "Run demo_digest ?d None ([Recv 0, Fetch 0 unparsable] @ rest) [bad_url]
          (world_with Map.empty) = None" for rest
    by (rule Run_never_returns_after_panic[OF e p w])
  then have c2: "\<forall>rest. Run demo_digest ?d None ([Recv 0, Fetch 0 unparsable] @ rest) [bad_url]
          (world_with Map.empty) = None" by blast
  have c1: "map_option (\<lambda>s. (manifest s, total s, workers s, panicked (rs_world s),
                     requests (rs_world s),
                     files (rs_world s) ''out/bad/bad-1.0.0%zz.crate.part''))
     (exec demo_digest ?d [Recv 0, Fetch 0 unparsable] ?start)
     = Some ([], 0, [WFetch bad_url, WIdle], True, [], Some [])"
    by (simp only: e) (simp add: Run_start_def world_with_def)
  have c3: "length ([] :: Record list) \<noteq> length [bad_url]" by simp
  show ?thesis by (intro conjI; fact)
qed

end
